theory Spec2Isabelle
  imports Complex_Main "HOL-Library.Char_ord" "HOL-Library.List_Lexorder"
begin

section \<open>Data-assimilation forcing model: observation ingestion\<close>

text \<open>
  A shallow embedding of \<^verbatim>\<open>src/model_DAforcing.py\<close>: the window planner inlined in
  \<^verbatim>\<open>DAforcing_model.__init__\<close>, the quality control and the chunked interpolation of
  \<^verbatim>\<open>_read_timeslice_files\<close> with \<^verbatim>\<open>_interpolate_one\<close>, the file selection of
  \<^verbatim>\<open>_read_timeseries_files\<close> and the last-observation extraction of
  \<^verbatim>\<open>_read_lastobs_file\<close>.

  Python exceptions are values of \<open>error\<close>; a function that can raise returns
  \<open>error + 'a\<close> with \<open>Inl\<close> the exception. A float is a \<open>real option\<close>: \<open>None\<close> is
  NaN, and the arithmetic on the other values is exact.
\<close>

subsection \<open>Exceptions\<close>

datatype error =
    ValueError | TypeError | KeyError | IndexError | AttributeError
  | OverflowError | UnicodeDecodeError

definition bind_err :: "error + 'a \<Rightarrow> ('a \<Rightarrow> error + 'b) \<Rightarrow> error + 'b" where
  "bind_err m f = (case m of Inl e \<Rightarrow> Inl e | Inr x \<Rightarrow> f x)"

fun mapM_err :: "('a \<Rightarrow> error + 'b) \<Rightarrow> 'a list \<Rightarrow> error + 'b list" where
  "mapM_err f [] = Inr []"
| "mapM_err f (x # xs) =
     (case f x of
        Inl e \<Rightarrow> Inl e
      | Inr y \<Rightarrow> (case mapM_err f xs of Inl e \<Rightarrow> Inl e | Inr ys \<Rightarrow> Inr (y # ys)))"

subsection \<open>\<^verbatim>\<open>datetime\<close> and \<^verbatim>\<open>timedelta\<close>\<close>

text \<open>
  A naive \<^verbatim>\<open>datetime\<close> with whole seconds is the number of seconds since the start of
  proleptic Gregorian ordinal day 0, so ordinal day \<open>n\<close> covers
  \<open>n * 86400 ..< (n + 1) * 86400\<close>. Python's dates run from 0001-01-01 (ordinal 1) to
  9999-12-31 (ordinal 3652059); arithmetic leaving that range raises OverflowError.
  Comparison and subtraction of datetimes are those of the integers. The calendar
  functions follow CPython's \<^verbatim>\<open>_pydatetime.py\<close>.
\<close>

type_synonym datetime = int
type_synonym timedelta = int

definition MINDT :: datetime where
  "MINDT = 86400"

definition MAXDT :: datetime where
  "MAXDT = 3652059 * 86400 + 86399"

definition is_leap :: "int \<Rightarrow> bool" where
  "is_leap y = (y mod 4 = 0 \<and> (y mod 100 \<noteq> 0 \<or> y mod 400 = 0))"

definition days_before_year :: "int \<Rightarrow> int" where
  "days_before_year year = (let y = year - 1 in y * 365 + y div 4 - y div 100 + y div 400)"

definition DAYS_IN_MONTH :: "int list" where
  "DAYS_IN_MONTH = [- 1, 31, 28, 31, 30, 31, 30, 31, 31, 30, 31, 30, 31]"

definition DAYS_BEFORE_MONTH :: "int list" where
  "DAYS_BEFORE_MONTH = [0, 0, 31, 59, 90, 120, 151, 181, 212, 243, 273, 304, 334]"

definition days_in_month :: "int \<Rightarrow> nat \<Rightarrow> int" where
  "days_in_month year month =
     (if month = 2 \<and> is_leap year then 29 else DAYS_IN_MONTH ! month)"

definition days_before_month :: "int \<Rightarrow> nat \<Rightarrow> int" where
  "days_before_month year month =
     DAYS_BEFORE_MONTH ! month + (if month > 2 \<and> is_leap year then 1 else 0)"

definition ymd2ord :: "int \<Rightarrow> nat \<Rightarrow> int \<Rightarrow> int" where
  "ymd2ord year month day = days_before_year year + days_before_month year month + day"

definition ord2ymd :: "int \<Rightarrow> int \<times> nat \<times> int" where
  "ord2ymd n0 =
     (let n = n0 - 1;
          n400 = n div 146097; n = n mod 146097;
          n100 = n div 36524; n = n mod 36524;
          n4 = n div 1461; n = n mod 1461;
          n1 = n div 365; n = n mod 365;
          year = n400 * 400 + 1 + n100 * 100 + n4 * 4 + n1
      in if n1 = 4 \<or> n100 = 4 then (year - 1, 12, 31)
         else
           let leapyear = (n1 = 3 \<and> (n4 \<noteq> 24 \<or> n100 = 3));
               month = nat ((n + 50) div 32);
               preceding = DAYS_BEFORE_MONTH ! month + (if month > 2 \<and> leapyear then 1 else 0)
           in if preceding > n
              then let month' = month - 1;
                       preceding' = preceding
                         - (DAYS_IN_MONTH ! month' + (if month' = 2 \<and> leapyear then 1 else 0))
                   in (year, month', n - preceding' + 1)
              else (year, month, n - preceding + 1))"

text \<open>\<^verbatim>\<open>datetime(year, month, day, hour, minute, second)\<close>, with its range checks.\<close>

definition datetime :: "int \<Rightarrow> nat \<Rightarrow> int \<Rightarrow> int \<Rightarrow> int \<Rightarrow> int \<Rightarrow> error + datetime" where
  "datetime year month day hour minute second =
     (if 1 \<le> year \<and> year \<le> 9999 \<and> 1 \<le> month \<and> month \<le> 12
         \<and> 1 \<le> day \<and> day \<le> days_in_month year month
         \<and> 0 \<le> hour \<and> hour \<le> 23 \<and> 0 \<le> minute \<and> minute \<le> 59
         \<and> 0 \<le> second \<and> second \<le> 59
      then Inr (ymd2ord year month day * 86400 + hour * 3600 + minute * 60 + second)
      else Inl ValueError)"

text \<open>
  \<^verbatim>\<open>timedelta(days=d, hours=h, minutes=m, seconds=s)\<close> in seconds; more than
  999999999 days either way raises OverflowError.
\<close>

definition timedelta :: "int \<Rightarrow> int \<Rightarrow> int \<Rightarrow> int \<Rightarrow> error + timedelta" where
  "timedelta days hours minutes seconds =
     (let total = days * 86400 + hours * 3600 + minutes * 60 + seconds
      in if - 999999999 \<le> total div 86400 \<and> total div 86400 \<le> 999999999
         then Inr total else Inl OverflowError)"

definition dt_add :: "datetime \<Rightarrow> timedelta \<Rightarrow> error + datetime" where
  "dt_add t d = (if MINDT \<le> t + d \<and> t + d \<le> MAXDT then Inr (t + d) else Inl OverflowError)"

definition dt_sub :: "datetime \<Rightarrow> timedelta \<Rightarrow> error + datetime" where
  "dt_sub t d = dt_add t (- d)"

subsection \<open>\<^verbatim>\<open>strftime\<close> and \<^verbatim>\<open>strptime\<close>\<close>

text \<open>
  The directives the program uses: \<^verbatim>\<open>%Y %m %d %H %M %S\<close>. Month, day, hour, minute
  and second are zero padded to two digits. The year is printed as the C library prints it:
  glibc, the platform of the program, prints it without padding, so a year below 1000 has
  fewer than four digits. Every other character of a format stands for itself.
\<close>

definition digit_char :: "int \<Rightarrow> char" where
  "digit_char n = ''0123456789'' ! nat (n mod 10)"

definition pad2 :: "int \<Rightarrow> string" where
  "pad2 n = [digit_char (n div 10), digit_char n]"

definition pad4 :: "int \<Rightarrow> string" where
  "pad4 n = [digit_char (n div 1000), digit_char (n div 100), digit_char (n div 10), digit_char n]"

definition year_digits :: "int \<Rightarrow> string" where
  "year_digits y =
     (if y < 10 then [digit_char y]
      else if y < 100 then pad2 y
      else if y < 1000 then [digit_char (y div 100), digit_char (y div 10), digit_char y]
      else pad4 y)"

definition directive :: "datetime \<Rightarrow> char \<Rightarrow> string option" where
  "directive t c =
     (let (year, month, day) = ord2ymd (t div 86400); sod = t mod 86400 in
      if c = CHR ''Y'' then Some (year_digits year)
      else if c = CHR ''m'' then Some (pad2 (int month))
      else if c = CHR ''d'' then Some (pad2 day)
      else if c = CHR ''H'' then Some (pad2 (sod div 3600))
      else if c = CHR ''M'' then Some (pad2 (sod mod 3600 div 60))
      else if c = CHR ''S'' then Some (pad2 (sod mod 60))
      else None)"

fun strftime :: "datetime \<Rightarrow> string \<Rightarrow> string" where
  "strftime t [] = []"
| "strftime t [c] = [c]"
| "strftime t (c # d # fmt) =
     (if c = CHR ''%''
      then (case directive t d of
              Some s \<Rightarrow> s @ strftime t fmt
            | None \<Rightarrow> c # d # strftime t fmt)
      else c # strftime t (d # fmt))"


text \<open>
  \<^verbatim>\<open>strptime\<close> matches the regular expression CPython builds from the format, whose
  alternatives per directive are tried in order: \<^verbatim>\<open>%Y\<close> is four digits, \<^verbatim>\<open>%m\<close> is
  \<^verbatim>\<open>1[0-2]|0[1-9]|[1-9]\<close>, \<^verbatim>\<open>%d\<close> is \<^verbatim>\<open>3[0-1]|[1-2]\d|0[1-9]|[1-9]| [1-9]\<close>,
  \<^verbatim>\<open>%H\<close> is \<^verbatim>\<open>2[0-3]|[0-1]\d|\d\<close>, \<^verbatim>\<open>%M\<close> is \<^verbatim>\<open>[0-5]\d|\d\<close> and \<^verbatim>\<open>%S\<close> is
  \<^verbatim>\<open>6[0-1]|[0-5]\d|\d\<close>. Text left over after the match, or no match, is a ValueError,
  and so is a field the \<^verbatim>\<open>datetime\<close> constructor rejects.
\<close>

definition digit_val :: "char \<Rightarrow> int option" where
  "digit_val c = map_of (zip ''0123456789'' [0, 1, 2, 3, 4, 5, 6, 7, 8, 9]) c"

definition one_digit :: "int \<Rightarrow> int \<Rightarrow> string \<Rightarrow> (int \<times> string) list" where
  "one_digit lo hi s =
     (case s of
        a # rest \<Rightarrow>
          (case digit_val a of
             Some x \<Rightarrow> if lo \<le> x \<and> x \<le> hi then [(x, rest)] else []
           | None \<Rightarrow> [])
      | [] \<Rightarrow> [])"

definition two_digits :: "int \<Rightarrow> int \<Rightarrow> string \<Rightarrow> (int \<times> string) list" where
  "two_digits lo hi s =
     (case s of
        a # b # rest \<Rightarrow>
          (case (digit_val a, digit_val b) of
             (Some x, Some y) \<Rightarrow> if lo \<le> 10 * x + y \<and> 10 * x + y \<le> hi then [(10 * x + y, rest)] else []
           | _ \<Rightarrow> [])
      | _ \<Rightarrow> [])"

definition four_digits :: "string \<Rightarrow> (int \<times> string) list" where
  "four_digits s =
     (case s of
        a # b # c # d # rest \<Rightarrow>
          (case (digit_val a, digit_val b, digit_val c, digit_val d) of
             (Some w, Some x, Some y, Some z) \<Rightarrow> [(1000 * w + 100 * x + 10 * y + z, rest)]
           | _ \<Rightarrow> [])
      | _ \<Rightarrow> [])"

definition field_alternatives :: "char \<Rightarrow> string \<Rightarrow> (int \<times> string) list option" where
  "field_alternatives c s =
     (if c = CHR ''Y'' then Some (four_digits s)
      else if c = CHR ''m'' then Some (two_digits 1 12 s @ one_digit 1 9 s)
      else if c = CHR ''d'' then
        Some (two_digits 1 31 s @ one_digit 1 9 s
              @ (case s of a # rest \<Rightarrow> if a = CHR '' '' then one_digit 1 9 rest else [] | [] \<Rightarrow> []))
      else if c = CHR ''H'' then Some (two_digits 0 23 s @ one_digit 0 9 s)
      else if c = CHR ''M'' then Some (two_digits 0 59 s @ one_digit 0 9 s)
      else if c = CHR ''S'' then Some (two_digits 0 61 s @ one_digit 0 9 s)
      else None)"

fun first_some :: "'a option list \<Rightarrow> 'a option" where
  "first_some [] = None"
| "first_some (None # xs) = first_some xs"
| "first_some (Some x # xs) = Some x"

fun strptime_match :: "string \<Rightarrow> string \<Rightarrow> (char \<Rightarrow> int) \<Rightarrow> (char \<Rightarrow> int) option" where
  "strptime_match [] s env = (if s = [] then Some env else None)"
| "strptime_match [c] s env =
     (case s of x # rest \<Rightarrow> if x = c then strptime_match [] rest env else None | [] \<Rightarrow> None)"
| "strptime_match (c # d # fmt) s env =
     (if c = CHR ''%''
      then (case field_alternatives d s of
              Some alts \<Rightarrow>
                first_some (map (\<lambda>(v, rest). strptime_match fmt rest (env(d := v))) alts)
            | None \<Rightarrow> None)
      else (case s of
              x # rest \<Rightarrow> if x = c then strptime_match (d # fmt) rest env else None
            | [] \<Rightarrow> None))"

definition strptime :: "string \<Rightarrow> string \<Rightarrow> error + datetime" where
  "strptime s fmt =
     (case strptime_match fmt s ((\<lambda>_. 0)(CHR ''Y'' := 1900, CHR ''m'' := 1, CHR ''d'' := 1)) of
        None \<Rightarrow> Inl ValueError
      | Some env \<Rightarrow>
          datetime (env CHR ''Y'') (nat (env CHR ''m'')) (env CHR ''d'')
            (env CHR ''H'') (env CHR ''M'') (env CHR ''S''))"

subsection \<open>Window planner (\<^verbatim>\<open>DAforcing_model.__init__\<close>, lines 51 to 61)\<close>

text \<open>
  \<^verbatim>\<open>
  timeslice_start = start_datetime - timedelta(hours=lookback_hrs)
  timeslice_end = start_datetime + timedelta(seconds=dt*nts)
  delta = timedelta(minutes=15)
  timeslice_dates = []
  while timeslice_start <= timeslice_end:
      timeslice_dates.append(timeslice_start.strftime('%Y-%m-%d_%H:%M:%S'))
      timeslice_start += delta
  \<close>
  The loop carries the list built so far; \<open>delta\<close> is the constant quarter of an hour.
\<close>

definition delta :: timedelta where
  "delta = 15 * 60"

function timeslice_loop :: "datetime \<Rightarrow> datetime \<Rightarrow> string list \<Rightarrow> error + string list" where
  "timeslice_loop timeslice_start timeslice_end timeslice_dates =
     (if timeslice_start \<le> timeslice_end
      then (case dt_add timeslice_start delta of
              Inl e \<Rightarrow> Inl e
            | Inr next_start \<Rightarrow>
                timeslice_loop next_start timeslice_end
                  (timeslice_dates @ [strftime timeslice_start ''%Y-%m-%d_%H:%M:%S'']))
      else Inr timeslice_dates)"
  by pat_completeness auto
termination
  by (relation "measure (\<lambda>(s, e, acc). nat (e + 1 - s))")
     (auto simp: dt_add_def delta_def split: if_splits)

declare timeslice_loop.simps [simp del]

definition timeslice_dates :: "datetime \<Rightarrow> int \<Rightarrow> int \<Rightarrow> int \<Rightarrow> error + string list" where
  "timeslice_dates start_datetime lookback_hrs dt nts =
     bind_err (timedelta 0 lookback_hrs 0 0) (\<lambda>lookback.
     bind_err (dt_sub start_datetime lookback) (\<lambda>timeslice_start.
     bind_err (timedelta 0 0 0 (dt * nts)) (\<lambda>horizon.
     bind_err (dt_add start_datetime horizon) (\<lambda>timeslice_end.
       timeslice_loop timeslice_start timeslice_end []))))"

subsection \<open>Byte strings\<close>

text \<open>
  A \<^verbatim>\<open>bytes\<close> value and the \<^verbatim>\<open>str\<close> decoded from it are both the list of their UTF-8
  bytes, so \<^verbatim>\<open>decode('utf-8')\<close> checks that the bytes are well-formed UTF-8 and returns
  them. \<^verbatim>\<open>strip\<close> removes the whitespace characters at both ends: the ASCII ones (9 to
  13, 28 to 32) and, in their UTF-8 encoding, U+0085, U+00A0, U+1680, U+2000 to U+200A,
  U+2028, U+2029, U+202F, U+205F and U+3000.
\<close>

definition cont :: "nat \<Rightarrow> bool" where
  "cont b = (128 \<le> b \<and> b \<le> 191)"

fun utf8_valid :: "nat list \<Rightarrow> bool" where
  "utf8_valid [] = True"
| "utf8_valid (a # bs) =
     (if a < 128 then utf8_valid bs
      else if 194 \<le> a \<and> a \<le> 223 then
        (case bs of b # r \<Rightarrow> cont b \<and> utf8_valid r | _ \<Rightarrow> False)
      else if 224 \<le> a \<and> a \<le> 239 then
        (case bs of
           b # c # r \<Rightarrow>
             cont b \<and> (a = 224 \<longrightarrow> 160 \<le> b) \<and> (a = 237 \<longrightarrow> b \<le> 159) \<and> cont c \<and> utf8_valid r
         | _ \<Rightarrow> False)
      else if 240 \<le> a \<and> a \<le> 244 then
        (case bs of
           b # c # d # r \<Rightarrow>
             cont b \<and> (a = 240 \<longrightarrow> 144 \<le> b) \<and> (a = 244 \<longrightarrow> b \<le> 143) \<and> cont c \<and> cont d
             \<and> utf8_valid r
         | _ \<Rightarrow> False)
      else False)"

definition decode :: "string \<Rightarrow> error + string" where
  "decode s = (if utf8_valid (map of_char s) then Inr s else Inl UnicodeDecodeError)"

definition is_space :: "nat \<Rightarrow> bool" where
  "is_space n = (n = 32 \<or> (9 \<le> n \<and> n \<le> 13) \<or> (28 \<le> n \<and> n \<le> 31))"

text \<open>The number of bytes of the whitespace character that a list of bytes starts with.\<close>

definition space_prefix :: "nat list \<Rightarrow> nat" where
  "space_prefix bs =
     (case bs of
        [] \<Rightarrow> 0
      | a # r \<Rightarrow>
          if is_space a then 1
          else if a = 194 then
            (case r of b # _ \<Rightarrow> if b = 133 \<or> b = 160 then 2 else 0 | [] \<Rightarrow> 0)
          else if a = 225 \<or> a = 226 \<or> a = 227 then
            (case r of
               b # c # _ \<Rightarrow>
                 if (a = 225 \<and> b = 154 \<and> c = 128)
                    \<or> (a = 226 \<and> b = 128 \<and> ((128 \<le> c \<and> c \<le> 138) \<or> c = 168 \<or> c = 169 \<or> c = 175))
                    \<or> (a = 226 \<and> b = 129 \<and> c = 159)
                    \<or> (a = 227 \<and> b = 128 \<and> c = 128)
                 then 3 else 0
             | _ \<Rightarrow> 0)
          else 0)"

text \<open>The same for the whitespace character that a list of bytes ends with.\<close>

definition space_suffix :: "nat list \<Rightarrow> nat" where
  "space_suffix bs =
     (case rev bs of
        [] \<Rightarrow> 0
      | c # r \<Rightarrow>
          if is_space c then 1
          else (case r of
                  [] \<Rightarrow> 0
                | b # r' \<Rightarrow>
                    if space_prefix [b, c] = 2 then 2
                    else (case r' of
                            [] \<Rightarrow> 0
                          | a # _ \<Rightarrow> if space_prefix [a, b, c] = 3 then 3 else 0)))"

fun lstrip :: "string \<Rightarrow> string" where
  "lstrip [] = []"
| "lstrip (a # r) =
     (let n = space_prefix (map of_char (a # r))
      in if n = 0 then a # r else lstrip (drop (n - 1) r))"

text \<open>\<open>rstrip_rev\<close> works on the reversed string, whose head is the last byte.\<close>

fun rstrip_rev :: "string \<Rightarrow> string" where
  "rstrip_rev [] = []"
| "rstrip_rev (c # r) =
     (let n = space_suffix (map of_char (rev (c # r)))
      in if n = 0 then c # r else rstrip_rev (drop (n - 1) r))"

definition rstrip :: "string \<Rightarrow> string" where
  "rstrip s = rev (rstrip_rev (rev s))"

definition strip :: "string \<Rightarrow> string" where
  "strip s = rstrip (lstrip s)"

subsection \<open>Observation loader and quality control (\<^verbatim>\<open>_read_timeslice_files\<close>, lines 222 to 237)\<close>

text \<open>
  A row of \<^verbatim>\<open>observation_df\<close>. Comparisons with NaN are false, and so are pandas'
  comparisons of a column with the scalar \<^verbatim>\<open>None\<close>, which is what an unset threshold is.
\<close>

record observation =
  stationId :: string
  time :: string
  discharge :: "real option"
  discharge_quality :: "real option"

definition nan_lt :: "real option \<Rightarrow> real option \<Rightarrow> bool" where
  "nan_lt a b = (case (a, b) of (Some x, Some y) \<Rightarrow> x < y | _ \<Rightarrow> False)"

definition nan_le :: "real option \<Rightarrow> real option \<Rightarrow> bool" where
  "nan_le a b = (case (a, b) of (Some x, Some y) \<Rightarrow> x \<le> y | _ \<Rightarrow> False)"

text \<open>\<^verbatim>\<open>observation_df.loc[mask, 'discharge'] = np.nan\<close>, the mask computed row by row.\<close>

definition loc_discharge_nan :: "(observation \<Rightarrow> bool) \<Rightarrow> observation list \<Rightarrow> observation list" where
  "loc_discharge_nan row_mask df = map (\<lambda>r. if row_mask r then r\<lparr>discharge := None\<rparr> else r) df"

text \<open>
  \<open>found\<close> holds the frames read for the dates whose \<^verbatim>\<open>glob\<close> found a file, in the order
  of the dates. When no date has a file, \<^verbatim>\<open>observation_df\<close> is the empty frame without
  columns and \<^verbatim>\<open>observation_df['stationId']\<close> raises KeyError.
\<close>

definition read_timeslice_qc :: "observation list list \<Rightarrow> real option \<Rightarrow> error + observation list" where
  "read_timeslice_qc found qc_threshold =
     (if found = [] then Inl KeyError
      else
        bind_err (mapM_err (\<lambda>r. bind_err (decode (stationId r))
                    (\<lambda>s. Inr (r\<lparr>stationId := strip s\<rparr>))) (concat found)) (\<lambda>df1.
        bind_err (mapM_err (\<lambda>r. bind_err (decode (time r))
                    (\<lambda>s. Inr (r\<lparr>time := s\<rparr>))) df1) (\<lambda>df2.
        let df3 = map (\<lambda>r. r\<lparr>discharge_quality :=
                          map_option (\<lambda>q. q / 100) (discharge_quality r)\<rparr>) df2;
            df4 = loc_discharge_nan (\<lambda>r. nan_lt (discharge_quality r) (Some 0)) df3;
            df5 = loc_discharge_nan (\<lambda>r. nan_lt (Some 1) (discharge_quality r)) df4;
            df6 = loc_discharge_nan (\<lambda>r. nan_lt (discharge_quality r) qc_threshold) df5;
            df7 = loc_discharge_nan (\<lambda>r. nan_le (discharge r) (Some 0)) df6
        in Inr df7)))"

subsection \<open>Frames, resampling and interpolation (pandas)\<close>

text \<open>
  \<^verbatim>\<open>observation_df_T\<close> has the observation times as its index and one column per
  station. Times are whole minutes, counted from the epoch; each column holds one value per
  index entry. The index is sorted and without duplicates, as \<^verbatim>\<open>unstack\<close> builds it.
\<close>

record frame =
  df_index :: "int list"
  df_cols :: "(string \<times> real option list) list"

text \<open>
  \<^verbatim>\<open>resample(freq)\<close> with a frequency of \<open>k\<close> minutes bins from the first to the last
  index entry, each floored to a multiple of \<open>k\<close> minutes counted from midnight of the
  first entry's day. \<^verbatim>\<open>asfreq()\<close> reindexes onto the bin labels: a label that is no
  index entry gets NaN. A frequency below one minute is rejected.
\<close>

definition resample_grid :: "int \<Rightarrow> int list \<Rightarrow> int list" where
  "resample_grid k idx =
     (if idx = [] then []
      else let t_first = fold min idx (hd idx);
               t_last = fold max idx (hd idx);
               origin = t_first div 1440 * 1440;
               start = origin + (t_first - origin) div k * k;
               stop = origin + (t_last - origin) div k * k
           in map (\<lambda>i. start + k * int i) [0..<nat ((stop - start) div k) + 1])"

definition reindex :: "int list \<Rightarrow> int list \<Rightarrow> real option list \<Rightarrow> real option list" where
  "reindex idx grid col =
     map (\<lambda>t. case map_of (zip idx col) t of Some v \<Rightarrow> v | None \<Rightarrow> None) grid"

definition resample_asfreq :: "int \<Rightarrow> frame \<Rightarrow> error + frame" where
  "resample_asfreq k df =
     (if k < 1 then Inl ValueError
      else let grid = resample_grid k (df_index df)
           in Inr \<lparr>df_index = grid,
                   df_cols = map (\<lambda>(c, v). (c, reindex (df_index df) grid v)) (df_cols df)\<rparr>)"

text \<open>
  \<^verbatim>\<open>interpolate(limit=l, limit_direction='both')\<close> with the default linear method treats
  the values of a column as equally spaced. As pandas' \<^verbatim>\<open>_interp_limit\<close> documents it, a
  NaN at position \<open>x\<close> is left as it is when every value from \<open>x - l\<close> to \<open>x + l\<close> (inside
  the column) is NaN. Every other NaN gets the value of \<^verbatim>\<open>np.interp\<close>: the line through
  the nearest values on both sides, or the nearest value when one side has none. A column
  with no value, or with no NaN, is returned as it is. A limit below 1 is rejected.
\<close>

definition interp_limit :: "bool list \<Rightarrow> nat \<Rightarrow> nat \<Rightarrow> nat list" where
  "interp_limit invalid fw_limit bw_limit =
     filter (\<lambda>x. invalid ! x \<and>
                 list_all (\<lambda>j. invalid ! j)
                   [x - fw_limit ..< min (length invalid) (x + bw_limit + 1)])
       [0..<length invalid]"

definition last_valid_before :: "real option list \<Rightarrow> nat \<Rightarrow> nat option" where
  "last_valid_before ys x =
     (case filter (\<lambda>i. ys ! i \<noteq> None) (rev [0..<x]) of [] \<Rightarrow> None | i # _ \<Rightarrow> Some i)"

definition first_valid_after :: "real option list \<Rightarrow> nat \<Rightarrow> nat option" where
  "first_valid_after ys x =
     (case filter (\<lambda>j. ys ! j \<noteq> None) [Suc x..<length ys] of [] \<Rightarrow> None | j # _ \<Rightarrow> Some j)"

definition np_interp :: "real option list \<Rightarrow> nat \<Rightarrow> real option" where
  "np_interp ys x =
     (case (last_valid_before ys x, first_valid_after ys x) of
        (Some i, Some j) \<Rightarrow>
          Some ((the (ys ! j) - the (ys ! i)) / (real j - real i) * (real x - real i)
                + the (ys ! i))
      | (None, Some j) \<Rightarrow> ys ! j
      | (Some i, None) \<Rightarrow> ys ! i
      | (None, None) \<Rightarrow> None)"

definition interpolate_1d :: "nat \<Rightarrow> real option list \<Rightarrow> real option list" where
  "interpolate_1d limit ys =
     (let invalid = map (\<lambda>v. v = None) ys in
      if list_all (\<lambda>b. b) invalid then ys
      else if list_all (\<lambda>b. \<not> b) invalid then ys
      else let preserve_nans = interp_limit invalid limit limit
           in map (\<lambda>x. if invalid ! x
                        then (if x \<in> set preserve_nans then None else np_interp ys x)
                        else ys ! x)
                [0..<length ys])"

definition interpolate :: "int \<Rightarrow> frame \<Rightarrow> error + frame" where
  "interpolate limit df =
     (if limit < 1 then Inl ValueError
      else Inr (df\<lparr>df_cols := map (\<lambda>(c, v). (c, interpolate_1d (nat limit) v)) (df_cols df)\<rparr>))"

text \<open>A two-dimensional array: its number of rows, and its columns.\<close>

type_synonym ndarray = "nat \<times> real option list list"

definition to_numpy :: "frame \<Rightarrow> ndarray" where
  "to_numpy df = (length (df_index df), map snd (df_cols df))"

subsection \<open>\<^verbatim>\<open>_interpolate_one\<close>\<close>

text \<open>
  \<^verbatim>\<open>
  df.resample('min').interpolate(limit = interpolation_limit, limit_direction = 'both')
    .resample(frequency).asfreq().to_numpy()
  \<close>
  \<open>frequency\<close> is the number of minutes of the frequency string.
\<close>

definition interpolate_one :: "frame \<Rightarrow> int \<Rightarrow> int \<Rightarrow> error + ndarray" where
  "interpolate_one df interpolation_limit frequency =
     bind_err (resample_asfreq 1 df) (\<lambda>by_minute.
     bind_err (interpolate interpolation_limit by_minute) (\<lambda>interpolated.
     bind_err (resample_asfreq frequency interpolated) (\<lambda>resampled.
       Inr (to_numpy resampled))))"

text \<open>
  What that pipeline does to one column, as a function of the index: the column is put on
  the minute grid, interpolated, and read off at the labels of the target grid.
\<close>

definition interpolated_column :: "int list \<Rightarrow> int \<Rightarrow> int \<Rightarrow> real option list \<Rightarrow> real option list" where
  "interpolated_column idx limit k v =
     reindex (resample_grid 1 idx) (resample_grid k (resample_grid 1 idx))
       (interpolate_1d (nat limit) (reindex idx (resample_grid 1 idx) v))"

subsection \<open>Chunked interpolation (\<^verbatim>\<open>_read_timeslice_files\<close>, lines 247 to 280)\<close>

text \<open>
  \<^verbatim>\<open>str(int(frequency_secs/60))+"min"\<close>: \<^verbatim>\<open>int\<close> truncates towards zero.
\<close>

definition frequency_minutes :: "int \<Rightarrow> int" where
  "frequency_minutes frequency_secs =
     (if 0 \<le> frequency_secs then frequency_secs div 60 else - ((- frequency_secs) div 60))"

definition step :: nat where
  "step = 200"

text \<open>\<^verbatim>\<open>range(0, n, step)\<close> for a positive step.\<close>

definition py_range :: "nat \<Rightarrow> nat \<Rightarrow> nat list" where
  "py_range n stp = map (\<lambda>a. a * stp) [0..<(n + stp - 1) div stp]"

text \<open>\<^verbatim>\<open>df.iloc[:, start:stop]\<close>\<close>

definition iloc_cols :: "frame \<Rightarrow> nat \<Rightarrow> nat \<Rightarrow> frame" where
  "iloc_cols df start stop = df\<lparr>df_cols := take (stop - start) (drop start (df_cols df))\<rparr>"

text \<open>
  \<^verbatim>\<open>Parallel(n_jobs=cpu_pool)\<close> applied to a list of delayed calls returns their results in
  the order of the list, whatever the number of workers, and raises what a call raises.
  A number of workers of zero is rejected; \<open>None\<close> is one worker.
\<close>

definition Parallel :: "int option \<Rightarrow> (unit \<Rightarrow> error + 'a) list \<Rightarrow> error + 'a list" where
  "Parallel n_jobs jobs =
     (if n_jobs = Some 0 then Inl ValueError else mapM_err (\<lambda>job. job ()) jobs)"

text \<open>
  \<^verbatim>\<open>np.concatenate(arrays, axis = 1)\<close> needs at least one array, and the same number of
  rows in all of them.
\<close>

definition concatenate :: "ndarray list \<Rightarrow> error + ndarray" where
  "concatenate arrays =
     (case arrays of
        [] \<Rightarrow> Inl ValueError
      | a # rest \<Rightarrow>
          if list_all (\<lambda>b. fst b = fst a) rest
          then Inr (fst a, concat (map snd arrays)) else Inl ValueError)"

text \<open>\<^verbatim>\<open>pd.DataFrame(data, columns, index)\<close> checks the shape of the data.\<close>

definition DataFrame :: "ndarray \<Rightarrow> string list \<Rightarrow> int list \<Rightarrow> error + frame" where
  "DataFrame arr columns index =
     (if fst arr = length index \<and> length (snd arr) = length columns
      then Inr \<lparr>df_index = index, df_cols = zip columns (snd arr)\<rparr>
      else Inl ValueError)"

text \<open>
  From \<^verbatim>\<open>observation_df_T\<close> with its datetime index to the frame built from the
  concatenated chunks. The last line of the source transposes that frame, which swaps the
  names of its axes and leaves every station's series as it is.
\<close>

definition read_timeslice_interp :: "frame \<Rightarrow> int \<Rightarrow> int option \<Rightarrow> int \<Rightarrow> error + frame" where
  "read_timeslice_interp observation_df_T frequency_secs cpu_pool interpolation_limit =
     (let frequency = frequency_minutes frequency_secs in
      bind_err (resample_asfreq frequency observation_df_T) (\<lambda>buffer_df.
      let jobs =
            map (\<lambda>i. let start = i;
                         stop = (if i + step - 1 < length (df_cols buffer_df)
                                 then i + step else length (df_cols buffer_df))
                     in (\<lambda>_ :: unit.
                           interpolate_one (iloc_cols observation_df_T start stop)
                             interpolation_limit frequency))
              (py_range (length (df_cols observation_df_T)) step)
      in bind_err (Parallel cpu_pool jobs) (\<lambda>interp_chunks.
         bind_err (concatenate interp_chunks) (\<lambda>data.
           DataFrame data (map fst (df_cols buffer_df)) (df_index buffer_df)))))"

text \<open>
  The comparison the specification makes: all the columns interpolated at once by a single
  call of \<^verbatim>\<open>_interpolate_one\<close>, and the same frame built from the result.
\<close>

definition interpolate_all_columns :: "frame \<Rightarrow> int \<Rightarrow> int \<Rightarrow> error + frame" where
  "interpolate_all_columns observation_df_T frequency_secs interpolation_limit =
     (let frequency = frequency_minutes frequency_secs in
      bind_err (resample_asfreq frequency observation_df_T) (\<lambda>buffer_df.
      bind_err (interpolate_one observation_df_T interpolation_limit frequency) (\<lambda>data.
        DataFrame data (map fst (df_cols buffer_df)) (df_index buffer_df))))"

section \<open>Properties\<close>

subsection \<open>Window planner\<close>

lemma map_upt_shift:
  "map f [0..<Suc n] = f 0 # map (\<lambda>i. f (Suc i)) [0..<n]"
  by (simp only: upt_conv_Cons [of 0 "Suc n"] map_Suc_upt [symmetric] list.map map_map o_def)

lemma div900:
  fixes h :: int
  shows "900 * (h div 900) \<le> h" and "h < 900 * (h div 900) + 900"
    and "(h mod 900 = 0) = (900 * (h div 900) = h)"
proof -
  define d where "d = h div 900"
  define m where "m = h mod 900"
  have e: "h = 900 * d + m" unfolding d_def m_def by (rule mult_div_mod_eq [symmetric])
  have m0: "0 \<le> m" unfolding m_def by (rule pos_mod_sign) simp
  have m1: "m < 900" unfolding m_def by (rule pos_mod_bound) simp
  have a: "900 * d \<le> h" using e m0 by linarith
  have b: "h < 900 * d + 900" using e m1 by linarith
  have c: "(m = 0) = (900 * d = h)" using e by linarith
  show "900 * (h div 900) \<le> h" using a unfolding d_def .
  show "h < 900 * (h div 900) + 900" using b unfolding d_def .
  show "(h mod 900 = 0) = (900 * (h div 900) = h)" using c unfolding d_def m_def .
qed

lemma days_bound:
  fixes x :: int
  assumes "- 315537983999 \<le> x" and "x \<le> 315537983999"
  shows "- 999999999 \<le> x div 86400 \<and> x div 86400 \<le> 999999999"
proof -
  have "(- 315537983999) div 86400 \<le> x div 86400"
    using assms(1) by (rule zdiv_mono1) simp
  moreover have "x div 86400 \<le> 315537983999 div (86400 :: int)"
    using assms(2) by (rule zdiv_mono1) simp
  moreover have "(- 315537983999) div (86400 :: int) = - 3652060" by simp
  moreover have "315537983999 div (86400 :: int) = 3652059" by simp
  ultimately show ?thesis by simp
qed

lemma step_count:
  fixes s e :: int
  assumes "s \<le> e"
  shows "nat ((e - s) div 900) + 1 =
        Suc (if s + 900 \<le> e then nat ((e - (s + 900)) div 900) + 1 else 0)"
proof (cases "s + 900 \<le> e")
  case True
  have "e - s = (e - (s + 900)) + 1 * 900" by simp
  then have "(e - s) div 900 = 1 + (e - (s + 900)) div 900"
    by (simp only: div_mult_self1 [of 900 "e - (s + 900)" 1, simplified])
  moreover have "0 \<le> (e - (s + 900)) div 900"
    using True by (simp add: pos_imp_zdiv_nonneg_iff)
  ultimately show ?thesis using True by (simp add: nat_add_distrib)
next
  case False
  with assms have "(e - s) div 900 = 0" by (intro div_pos_pos_trivial) simp_all
  with False show ?thesis by simp
qed

lemma hours_div900:
  fixes l h :: int
  shows "(3600 * l + h) div 900 = 4 * l + h div 900" and "(3600 * l + h) mod 900 = h mod 900"
proof -
  have e: "3600 * l + h = h + (4 * l) * 900" by simp
  show "(3600 * l + h) div 900 = 4 * l + h div 900"
    unfolding e by (rule div_mult_self1) simp
  show "(3600 * l + h) mod 900 = h mod 900"
    unfolding e by (rule mod_mult_self1)
qed

lemma grid_arith:
  fixes s l h :: int
  assumes "0 \<le> l" and "0 \<le> h"
  shows "s - 3600 * l \<le> s
       \<and> s \<le> s - 3600 * l + 900 * ((3600 * l + h) div 900)
       \<and> s - 3600 * l + 900 * ((3600 * l + h) div 900) \<le> s + h
       \<and> s + h < s - 3600 * l + 900 * ((3600 * l + h) div 900) + 900
       \<and> (((3600 * l + h) mod 900 = 0) =
            (s - 3600 * l + 900 * ((3600 * l + h) div 900) = s + h))"
proof -
  define k where "k = (3600 * l + h) div 900"
  define q where "q = h div 900"
  have kq: "k = 4 * l + q" unfolding k_def q_def by (rule hours_div900)
  have q0: "0 \<le> q" unfolding q_def using assms(2) by simp
  have lo: "900 * k \<le> 3600 * l + h" unfolding k_def by (rule div900)
  have hi: "3600 * l + h < 900 * k + 900" unfolding k_def by (rule div900)
  have md: "((3600 * l + h) mod 900 = 0) = (900 * k = 3600 * l + h)"
    unfolding k_def by (rule div900)
  have e: "(s - 3600 * l + 900 * k = s + h) = (900 * k = 3600 * l + h)" by linarith
  have c1: "s - 3600 * l \<le> s" using assms(1) by linarith
  have c2: "s \<le> s - 3600 * l + 900 * k" using kq q0 by linarith
  have c3: "s - 3600 * l + 900 * k \<le> s + h" using lo by linarith
  have c4: "s + h < s - 3600 * l + 900 * k + 900" using hi by linarith
  show ?thesis
    using c1 c2 c3 c4 md e unfolding k_def by (simp only: simp_thms)
qed

lemma timedelta_seconds:
  "- 315537983999 \<le> x \<Longrightarrow> x \<le> 315537983999 \<Longrightarrow> timedelta 0 0 0 x = Inr x"
  using days_bound [of x] by (simp add: timedelta_def Let_def)

lemma timedelta_hours:
  "- 315537983999 \<le> 3600 * h \<Longrightarrow> 3600 * h \<le> 315537983999 \<Longrightarrow>
   timedelta 0 h 0 0 = Inr (3600 * h)"
  using days_bound [of "3600 * h"] by (simp add: timedelta_def Let_def mult.commute)

text \<open>
  The loop, started inside the range of \<^verbatim>\<open>datetime\<close> and ending a quarter of an hour
  before its end, appends the instants \<open>s, s + 900, ...\<close> up to \<open>e\<close>.
\<close>

lemma timeslice_loop_closed:
  "MINDT \<le> s \<Longrightarrow> e + 900 \<le> MAXDT \<Longrightarrow>
   timeslice_loop s e acc =
     Inr (acc @ map (\<lambda>i. strftime (s + 900 * int i) ''%Y-%m-%d_%H:%M:%S'')
                  [0..<(if s \<le> e then nat ((e - s) div 900) + 1 else 0)])"
proof (induction s e acc rule: timeslice_loop.induct)
  case (1 s e acc)
  show ?case
  proof (cases "s \<le> e")
    case False
    then show ?thesis by (subst timeslice_loop.simps) simp
  next
    case True
    have add: "dt_add s delta = Inr (s + 900)"
      using True "1.prems" by (simp add: dt_add_def delta_def)
    have ih: "timeslice_loop (s + 900) e (acc @ [strftime s ''%Y-%m-%d_%H:%M:%S'']) =
        Inr ((acc @ [strftime s ''%Y-%m-%d_%H:%M:%S'']) @
             map (\<lambda>i. strftime (s + 900 + 900 * int i) ''%Y-%m-%d_%H:%M:%S'')
               [0..<(if s + 900 \<le> e then nat ((e - (s + 900)) div 900) + 1 else 0)])"
      using "1.IH" [OF True add] "1.prems" by simp
    note cnt = step_count [OF True]
    have "timeslice_loop s e acc =
        timeslice_loop (s + 900) e (acc @ [strftime s ''%Y-%m-%d_%H:%M:%S''])"
      using True add by (subst timeslice_loop.simps) simp
    also note ih
    finally show ?thesis
      using True by (simp only: cnt if_True map_upt_shift) (simp add: algebra_simps)
  qed
qed

text \<open>
  C5, as the code has it. The claim says that the last timestamp equals the start plus the
  horizon. The loop steps from \<open>start - lookback\<close> by a quarter of an hour, so its last
  timestamp is the last such step not after \<open>start + dt * nts\<close>, and equals it only when
  \<open>dt * nts\<close> is a multiple of 900 seconds. For a non-negative lookback and horizon, with
  both ends of the window (and one step past its end) representable datetimes, the result
  is the list of the instants \<open>start - 3600 * lookback_hrs + 900 * i\<close> in the format
  \<^verbatim>\<open>%Y-%m-%d_%H:%M:%S\<close>, strictly increasing by 15 minutes, from \<open>start - lookback\<close>,
  with first \<open>\<le>\<close> start \<open>\<le>\<close> last \<open>\<le>\<close> end \<open><\<close> last + 15 minutes.
\<close>

theorem timeslice_dates_grid:
  assumes "0 \<le> lookback_hrs" and "0 \<le> dt * nts"
    and "MINDT \<le> start - 3600 * lookback_hrs" and "start + dt * nts + 900 \<le> MAXDT"
  shows "timeslice_dates start lookback_hrs dt nts =
           Inr (map (\<lambda>i. strftime (start - 3600 * lookback_hrs + 900 * int i)
                          ''%Y-%m-%d_%H:%M:%S'')
                  [0..<nat ((3600 * lookback_hrs + dt * nts) div 900) + 1])
         \<and> start - 3600 * lookback_hrs \<le> start
         \<and> start \<le> start - 3600 * lookback_hrs
                     + 900 * ((3600 * lookback_hrs + dt * nts) div 900)
         \<and> start - 3600 * lookback_hrs + 900 * ((3600 * lookback_hrs + dt * nts) div 900)
             \<le> start + dt * nts
         \<and> start + dt * nts
             < start - 3600 * lookback_hrs
                 + 900 * ((3600 * lookback_hrs + dt * nts) div 900) + 900
         \<and> (((3600 * lookback_hrs + dt * nts) mod 900 = 0) =
              (start - 3600 * lookback_hrs
                 + 900 * ((3600 * lookback_hrs + dt * nts) div 900) = start + dt * nts))"
proof -
  have b: "MINDT = 86400" "MAXDT = 315537983999" by (simp_all add: MINDT_def MAXDT_def)
  have td1: "timedelta 0 lookback_hrs 0 0 = Inr (3600 * lookback_hrs)"
    using assms b by (intro timedelta_hours) linarith+
  have td2: "timedelta 0 0 0 (dt * nts) = Inr (dt * nts)"
    using assms b by (intro timedelta_seconds) linarith+
  have s1: "dt_sub start (3600 * lookback_hrs) = Inr (start - 3600 * lookback_hrs)"
    using assms b by (simp add: dt_sub_def dt_add_def)
  have s2: "dt_add start (dt * nts) = Inr (start + dt * nts)"
    using assms b by (simp add: dt_add_def)
  have le: "start - 3600 * lookback_hrs \<le> start + dt * nts" using assms by simp
  have eq: "start + dt * nts - (start - 3600 * lookback_hrs) = 3600 * lookback_hrs + dt * nts"
    by simp
  have run: "timeslice_dates start lookback_hrs dt nts =
           Inr (map (\<lambda>i. strftime (start - 3600 * lookback_hrs + 900 * int i)
                          ''%Y-%m-%d_%H:%M:%S'')
                  [0..<nat ((3600 * lookback_hrs + dt * nts) div 900) + 1])"
    using timeslice_loop_closed [OF assms(3), of "start + dt * nts" "[]"] assms(4) le
    by (simp only: timeslice_dates_def bind_err_def td1 td2 s1 s2 sum.case eq if_True append_Nil)
  show ?thesis
    using run grid_arith [OF assms(1,2), of start] by (simp only: simp_thms)
qed

theorem timeslice_dates_grid_witness:
  "timeslice_dates 63839750400 1 300 4 =
     Inr [''2023-12-31_23:00:00'', ''2023-12-31_23:15:00'', ''2023-12-31_23:30:00'',
          ''2023-12-31_23:45:00'', ''2024-01-01_00:00:00'', ''2024-01-01_00:15:00'']
   \<and> (63839750400 :: int) - 3600 * 1 + 900 * ((3600 * 1 + 300 * 4) div 900) = 63839751300
   \<and> (63839750400 :: int) + 300 * 4 = 63839751600"
proof -
  have h: "(0::int) \<le> 1" "(0::int) \<le> 300 * 4" "MINDT \<le> 63839750400 - 3600 * 1"
    "63839750400 + 300 * 4 + 900 \<le> MAXDT"
    by (simp_all add: MINDT_def MAXDT_def)
  have "map (\<lambda>i. strftime (63839750400 - 3600 * 1 + 900 * int i) ''%Y-%m-%d_%H:%M:%S'')
          [0..<nat ((3600 * 1 + 300 * 4) div 900) + 1] =
        [''2023-12-31_23:00:00'', ''2023-12-31_23:15:00'', ''2023-12-31_23:30:00'',
         ''2023-12-31_23:45:00'', ''2024-01-01_00:00:00'', ''2024-01-01_00:15:00'']"
    by code_simp
  then show ?thesis
    using timeslice_dates_grid [OF h] by simp
qed

theorem timeslice_dates_last_counterexample:
  "timeslice_dates 63839750400 0 300 1 = Inr [''2024-01-01_00:00:00'']
   \<and> last [''2024-01-01_00:00:00'']
       \<noteq> strftime (63839750400 + 300 * 1) ''%Y-%m-%d_%H:%M:%S''"
  by code_simp

text \<open>
  C6, as the code has it. The claim says that the planner fails with InvalidWindowError
  when the window's end precedes its start. The code has no such check: the loop body
  never runs and the planner returns the empty list, for every window whose end precedes
  its start and whose two ends are representable datetimes.
\<close>

theorem timeslice_dates_empty_window:
  assumes "start + dt * nts < start - 3600 * lookback_hrs"
    and "MINDT \<le> start + dt * nts" and "start - 3600 * lookback_hrs \<le> MAXDT"
    and "MINDT \<le> start" and "start \<le> MAXDT"
  shows "timeslice_dates start lookback_hrs dt nts = Inr []"
proof -
  have b: "MINDT = 86400" "MAXDT = 315537983999" by (simp_all add: MINDT_def MAXDT_def)
  have td1: "timedelta 0 lookback_hrs 0 0 = Inr (3600 * lookback_hrs)"
    using assms b by (intro timedelta_hours) linarith+
  have td2: "timedelta 0 0 0 (dt * nts) = Inr (dt * nts)"
    using assms b by (intro timedelta_seconds) linarith+
  have s1: "dt_sub start (3600 * lookback_hrs) = Inr (start - 3600 * lookback_hrs)"
    using assms b by (simp add: dt_sub_def dt_add_def)
  have s2: "dt_add start (dt * nts) = Inr (start + dt * nts)"
    using assms b by (simp add: dt_add_def)
  show ?thesis
    using assms(1)
    by (simp only: timeslice_dates_def bind_err_def td1 td2 s1 s2 sum.case)
       (subst timeslice_loop.simps, simp)
qed

theorem timeslice_dates_empty_window_witness:
  "timeslice_dates 63839750400 (- 1) 300 0 = Inr []"
proof -
  have h: "(63839750400 :: int) + 300 * 0 < 63839750400 - 3600 * (- 1)"
    "MINDT \<le> 63839750400 + 300 * 0" "63839750400 - 3600 * (- 1) \<le> MAXDT"
    "MINDT \<le> 63839750400" "63839750400 \<le> MAXDT"
    by (simp_all add: MINDT_def MAXDT_def)
  show ?thesis by (rule timeslice_dates_empty_window [OF h])
qed

theorem timeslice_dates_no_error_counterexample:
  "(63839750400 :: int) + 300 * 0 < 63839750400 - 3600 * (- 1)
   \<and> timeslice_dates 63839750400 (- 1) 300 0 = Inr []"
  by code_simp

subsection \<open>Quality control\<close>

lemma mapM_err_Inr:
  "mapM_err f xs = Inr ys \<Longrightarrow> length ys = length xs \<and> (\<forall>i < length xs. f (xs ! i) = Inr (ys ! i))"
proof (induction xs arbitrary: ys)
  case Nil
  then show ?case by simp
next
  case (Cons x xs)
  from Cons.prems obtain y ys' where fx: "f x = Inr y" and r: "mapM_err f xs = Inr ys'"
    and ys: "ys = y # ys'"
    by (auto split: sum.splits)
  from Cons.IH [OF r] have l: "length ys' = length xs"
    and a: "\<forall>i < length xs. f (xs ! i) = Inr (ys' ! i)" by simp_all
  show ?case using fx l a ys by (auto simp: nth_Cons split: nat.splits)
qed

lemma mapM_err_total:
  "(\<forall>x \<in> set xs. \<exists>y. f x = Inr y) \<Longrightarrow> \<exists>ys. mapM_err f xs = Inr ys"
  by (induction xs) (auto split: sum.splits)

lemma decode_stationId_keeps:
  "bind_err (decode (stationId r)) (\<lambda>s. Inr (r\<lparr>stationId := strip s\<rparr>)) = Inr r' \<Longrightarrow>
   discharge r' = discharge r \<and> discharge_quality r' = discharge_quality r"
  by (auto simp: bind_err_def split: sum.splits)

lemma decode_time_keeps:
  "bind_err (decode (time r)) (\<lambda>s. Inr (r\<lparr>time := s\<rparr>)) = Inr r' \<Longrightarrow>
   discharge r' = discharge r \<and> discharge_quality r' = discharge_quality r"
  by (auto simp: bind_err_def split: sum.splits)

lemma loc_discharge_nan_nth:
  "i < length df \<Longrightarrow>
   loc_discharge_nan m df ! i = (if m (df ! i) then (df ! i)\<lparr>discharge := None\<rparr> else df ! i)"
  by (simp add: loc_discharge_nan_def)

lemma length_loc_discharge_nan: "length (loc_discharge_nan m df) = length df"
  by (simp add: loc_discharge_nan_def)

lemma qc_row:
  fixes q d thr :: "real option"
  defines "d1 \<equiv> (if nan_lt q (Some 0) then None else d)"
  defines "d2 \<equiv> (if nan_lt (Some 1) q then None else d1)"
  defines "d3 \<equiv> (if nan_lt q thr then None else d2)"
  shows "(if nan_le d3 (Some 0) then None else d3) =
         (if (\<exists>x. q = Some x \<and> (x < 0 \<or> x > 1 \<or> (\<exists>t. thr = Some t \<and> x < t)))
             \<or> (\<exists>y. d = Some y \<and> y \<le> 0)
          then None else d)"
proof (cases q)
  case None
  then show ?thesis
    by (cases d) (simp_all add: d1_def d2_def d3_def nan_lt_def nan_le_def)
next
  case (Some x)
  show ?thesis
  proof (cases thr)
    case None
    with Some show ?thesis
      by (cases d) (simp_all add: d1_def d2_def d3_def nan_lt_def nan_le_def)
  next
    case (Some t)
    with \<open>q = Some x\<close> show ?thesis
      by (cases d) (simp_all add: d1_def d2_def d3_def nan_lt_def nan_le_def)
  qed
qed

lemma read_timeslice_qc_returns:
  assumes "found \<noteq> []"
    and "\<forall>r \<in> set (concat found). utf8_valid (map of_char (stationId r))
           \<and> utf8_valid (map of_char (time r))"
  shows "\<exists>out. read_timeslice_qc found qc_threshold = Inr out"
proof -
  let ?f1 = "\<lambda>r. bind_err (decode (stationId r)) (\<lambda>s. Inr (r\<lparr>stationId := strip s\<rparr>))"
  let ?f2 = "\<lambda>r. bind_err (decode (time r)) (\<lambda>s. Inr (r\<lparr>time := s\<rparr>))"
  have "\<forall>r \<in> set (concat found). \<exists>y. ?f1 r = Inr y"
    using assms(2) by (simp add: decode_def bind_err_def)
  then obtain df1 where d1: "mapM_err ?f1 (concat found) = Inr df1"
    using mapM_err_total [of "concat found" ?f1] by blast
  note m1 = mapM_err_Inr [OF d1]
  have "\<exists>y. ?f2 r = Inr y" if "r \<in> set df1" for r
  proof -
    from that obtain i where i: "i < length df1" "r = df1 ! i" by (auto simp: in_set_conv_nth)
    with m1 have e: "?f1 (concat found ! i) = Inr r" and il: "i < length (concat found)" by simp_all
    have v: "utf8_valid (map of_char (time (concat found ! i)))"
      using assms(2) nth_mem [OF il] by blast
    have "time r = time (concat found ! i)"
      using e by (auto simp: bind_err_def split: sum.splits)
    with v show ?thesis by (simp add: decode_def bind_err_def)
  qed
  then obtain df2 where d2: "mapM_err ?f2 df1 = Inr df2"
    using mapM_err_total [of df1 ?f2] by blast
  show ?thesis
    using assms(1) d1 d2 by (simp add: read_timeslice_qc_def bind_err_def Let_def)
qed

lemma read_timeslice_qc_rows:
  assumes "read_timeslice_qc found qc_threshold = Inr out"
  shows "length out = length (concat found) \<and>
         (\<forall>i < length out.
            discharge_quality (out ! i) = map_option (\<lambda>q. q / 100) (discharge_quality (concat found ! i))
          \<and> discharge (out ! i) =
             (if (\<exists>q. discharge_quality (out ! i) = Some q \<and>
                      (q < 0 \<or> q > 1 \<or> (\<exists>t. qc_threshold = Some t \<and> q < t)))
                 \<or> (\<exists>d. discharge (concat found ! i) = Some d \<and> d \<le> 0)
              then None else discharge (concat found ! i)))"
proof -
  let ?f1 = "\<lambda>r. bind_err (decode (stationId r)) (\<lambda>s. Inr (r\<lparr>stationId := strip s\<rparr>))"
  let ?f2 = "\<lambda>r. bind_err (decode (time r)) (\<lambda>s. Inr (r\<lparr>time := s\<rparr>))"
  have ne: "found \<noteq> []"
    using assms by (cases "found = []") (simp_all add: read_timeslice_qc_def)
  obtain df1 where d1: "mapM_err ?f1 (concat found) = Inr df1"
    using assms ne
    by (cases "mapM_err ?f1 (concat found)") (simp_all add: read_timeslice_qc_def bind_err_def)
  obtain df2 where d2: "mapM_err ?f2 df1 = Inr df2"
    using assms ne d1
    by (cases "mapM_err ?f2 df1") (simp_all add: read_timeslice_qc_def bind_err_def)
  define df3 where
    "df3 = map (\<lambda>r. r\<lparr>discharge_quality := map_option (\<lambda>q. q / 100) (discharge_quality r)\<rparr>) df2"
  define df4 where "df4 = loc_discharge_nan (\<lambda>r. nan_lt (discharge_quality r) (Some 0)) df3"
  define df5 where "df5 = loc_discharge_nan (\<lambda>r. nan_lt (Some 1) (discharge_quality r)) df4"
  define df6 where "df6 = loc_discharge_nan (\<lambda>r. nan_lt (discharge_quality r) qc_threshold) df5"
  have out: "out = loc_discharge_nan (\<lambda>r. nan_le (discharge r) (Some 0)) df6"
    using assms ne d1 d2
    by (simp add: read_timeslice_qc_def bind_err_def Let_def df3_def df4_def df5_def df6_def)
  note m1 = mapM_err_Inr [OF d1] and m2 = mapM_err_Inr [OF d2]
  have l: "length df1 = length (concat found)" "length df2 = length df1" "length df3 = length df2"
    "length df4 = length df3" "length df5 = length df4" "length df6 = length df5"
    "length out = length df6"
    using m1 m2
    by (simp_all add: out df3_def df4_def df5_def df6_def length_loc_discharge_nan)
  have it: "discharge_quality (out ! i) = map_option (\<lambda>q. q / 100) (discharge_quality (concat found ! i))
          \<and> discharge (out ! i) =
             (if (\<exists>q. discharge_quality (out ! i) = Some q \<and>
                      (q < 0 \<or> q > 1 \<or> (\<exists>t. qc_threshold = Some t \<and> q < t)))
                 \<or> (\<exists>d. discharge (concat found ! i) = Some d \<and> d \<le> 0)
              then None else discharge (concat found ! i))"
    if i: "i < length out" for i
  proof -
    define r where "r = concat found ! i"
    define q where "q = map_option (\<lambda>q. q / 100) (discharge_quality r)"
    have i0: "i < length (concat found)" "i < length df1" "i < length df2" "i < length df3"
      "i < length df4" "i < length df5" "i < length df6"
      using i l by simp_all
    have k1: "discharge (df1 ! i) = discharge r \<and> discharge_quality (df1 ! i) = discharge_quality r"
      unfolding r_def using m1 i0(1) decode_stationId_keeps [of "concat found ! i" "df1 ! i"] by blast
    have k2: "discharge (df2 ! i) = discharge (df1 ! i)
            \<and> discharge_quality (df2 ! i) = discharge_quality (df1 ! i)"
      using m2 i0(2) decode_time_keeps [of "df1 ! i" "df2 ! i"] by blast
    have r3: "discharge (df3 ! i) = discharge r" "discharge_quality (df3 ! i) = q"
      using k1 k2 i0(3) by (simp_all add: df3_def q_def)
    have r4: "discharge (df4 ! i) = (if nan_lt q (Some 0) then None else discharge r)"
      "discharge_quality (df4 ! i) = q"
      using r3 i0(4) by (simp_all add: df4_def loc_discharge_nan_nth)
    have r5: "discharge (df5 ! i) = (if nan_lt (Some 1) q then None else discharge (df4 ! i))"
      "discharge_quality (df5 ! i) = q"
      using r4 i0(5) by (simp_all add: df5_def loc_discharge_nan_nth)
    have r6: "discharge (df6 ! i) = (if nan_lt q qc_threshold then None else discharge (df5 ! i))"
      "discharge_quality (df6 ! i) = q"
      using r5 i0(6) by (simp_all add: df6_def loc_discharge_nan_nth)
    have r7: "discharge (out ! i) = (if nan_le (discharge (df6 ! i)) (Some 0) then None else discharge (df6 ! i))"
      "discharge_quality (out ! i) = q"
      using r6 i0(7) by (simp_all add: out loc_discharge_nan_nth)
    have "discharge (out ! i) =
         (if (\<exists>x. q = Some x \<and> (x < 0 \<or> x > 1 \<or> (\<exists>t. qc_threshold = Some t \<and> x < t)))
             \<or> (\<exists>y. discharge r = Some y \<and> y \<le> 0)
          then None else discharge r)"
      unfolding r7(1) r6(1) r5(1) r4(1) by (rule qc_row)
    then show ?thesis unfolding r7(2) by (simp only: q_def r_def simp_thms)
  qed
  show ?thesis using l it by simp
qed



text \<open>
  C1. Whenever some file was found and every station id and time decodes, the loader
  returns, with one row per input record, in order; the quality of each row is the raw
  quality divided by 100; and the discharge of a row is missing when that normalised quality
  is below 0, above 1 or below the threshold, or when the record's discharge is at most 0,
  and is the record's discharge unchanged otherwise. A NaN quality or an unset threshold
  fails no comparison.
\<close>

theorem read_timeslice_qc_discharge:
  assumes "found \<noteq> []"
    and "\<forall>r \<in> set (concat found). utf8_valid (map of_char (stationId r))
           \<and> utf8_valid (map of_char (time r))"
  shows "\<exists>out. read_timeslice_qc found qc_threshold = Inr out
         \<and> length out = length (concat found)
         \<and> (\<forall>i < length out.
            discharge_quality (out ! i) = map_option (\<lambda>q. q / 100) (discharge_quality (concat found ! i))
          \<and> discharge (out ! i) =
             (if (\<exists>q. discharge_quality (out ! i) = Some q \<and>
                      (q < 0 \<or> q > 1 \<or> (\<exists>t. qc_threshold = Some t \<and> q < t)))
                 \<or> (\<exists>d. discharge (concat found ! i) = Some d \<and> d \<le> 0)
              then None else discharge (concat found ! i)))"
proof -
  from read_timeslice_qc_returns [OF assms] obtain out
    where run: "read_timeslice_qc found qc_threshold = Inr out" by blast
  from read_timeslice_qc_rows [OF run] run show ?thesis by blast
qed

theorem read_timeslice_qc_discharge_witness:
  "\<exists>out. read_timeslice_qc
     [[\<lparr>stationId = ''       01010000'', time = ''2024-01-01_00:00:00'',
        discharge = Some 10, discharge_quality = Some 100\<rparr>],
      [\<lparr>stationId = ''       01010000'', time = ''2024-01-01_00:15:00'',
        discharge = Some 12, discharge_quality = Some 50\<rparr>]] (Some (8 / 10)) = Inr out
   \<and> length out = 2
   \<and> discharge (out ! 0) = Some 10 \<and> discharge_quality (out ! 0) = Some 1
   \<and> discharge (out ! 1) = None \<and> discharge_quality (out ! 1) = Some (1 / 2)"
proof -
  let ?found = "[[\<lparr>stationId = ''       01010000'', time = ''2024-01-01_00:00:00'',
        discharge = Some (10 :: real), discharge_quality = Some (100 :: real)\<rparr>],
      [\<lparr>stationId = ''       01010000'', time = ''2024-01-01_00:15:00'',
        discharge = Some 12, discharge_quality = Some 50\<rparr>]]"
  have ne: "?found \<noteq> []" by simp
  have ok: "\<forall>r \<in> set (concat ?found). utf8_valid (map of_char (stationId r))
           \<and> utf8_valid (map of_char (time r))"
    by code_simp
  from read_timeslice_qc_discharge [OF ne ok, of "Some (8 / 10)"] obtain out
    where run: "read_timeslice_qc ?found (Some (8 / 10)) = Inr out"
      and len: "length out = length (concat ?found)"
      and rows: "\<forall>i < length out.
            discharge_quality (out ! i) = map_option (\<lambda>q. q / 100) (discharge_quality (concat ?found ! i))
          \<and> discharge (out ! i) =
             (if (\<exists>q. discharge_quality (out ! i) = Some q \<and>
                      (q < 0 \<or> q > 1 \<or> (\<exists>t. Some (8 / 10 :: real) = Some t \<and> q < t)))
                 \<or> (\<exists>d. discharge (concat ?found ! i) = Some d \<and> d \<le> 0)
              then None else discharge (concat ?found ! i))"
    by blast
  have l2: "length out = 2" using len by simp
  have r0: "discharge_quality (out ! 0) = Some 1" "discharge (out ! 0) = Some 10"
    using rows [rule_format, of 0] l2 by simp_all
  have i1: "1 < length out" using l2 by simp
  note row1 = rows [rule_format, OF i1]
  have q1: "discharge_quality (out ! 1) = Some (1 / 2)" using row1 by simp
  have "(1 / 2 :: real) < 8 / 10" by simp
  then have c1: "\<exists>q. discharge_quality (out ! 1) = Some q \<and>
                      (q < 0 \<or> q > 1 \<or> (\<exists>t. Some (8 / 10 :: real) = Some t \<and> q < t))"
    using q1 by blast
  have d1: "discharge (out ! 1) = None"
    using conjunct2 [OF row1] by (simp only: c1 simp_thms if_True)
  show ?thesis using run l2 r0 q1 d1 by blast
qed

subsection \<open>Bounded interpolation\<close>

text \<open>
  After \<^verbatim>\<open>interpolate(limit = l, limit_direction = 'both')\<close> a sample is missing exactly
  when every sample at most \<open>l\<close> positions away from it, on either side, was missing.
\<close>

lemma length_interpolate_1d: "length (interpolate_1d l ys) = length ys"
  by (simp add: interpolate_1d_def Let_def)

lemma in_interp_limit:
  "x \<in> set (interp_limit (map (\<lambda>v. v = None) ys) l l) \<longleftrightarrow>
     x < length ys \<and> (\<forall>j < length ys. x - l \<le> j \<and> j \<le> x + l \<longrightarrow> ys ! j = None)"
proof -
  have "x < length ys \<Longrightarrow>
      (ys ! x = None \<and> (\<forall>j. x - l \<le> j \<and> j < min (length ys) (x + l + 1) \<longrightarrow> ys ! j = None))
      = (\<forall>j < length ys. x - l \<le> j \<and> j \<le> x + l \<longrightarrow> ys ! j = None)"
    by (auto simp: less_Suc_eq_le)
  then show ?thesis
    by (auto simp: interp_limit_def list_all_iff less_Suc_eq_le)
qed

lemma last_valid_before_Some:
  "last_valid_before ys x = Some i \<Longrightarrow> i < x \<and> ys ! i \<noteq> None \<and> (\<forall>j. i < j \<and> j < x \<longrightarrow> ys ! j = None)"
proof (induction x)
  case 0
  then show ?case by (simp add: last_valid_before_def)
next
  case (Suc x)
  show ?case
  proof (cases "ys ! x = None")
    case True
    with Suc.prems have "last_valid_before ys x = Some i"
      by (simp add: last_valid_before_def)
    from Suc.IH [OF this] True show ?thesis
      by (auto simp: less_Suc_eq)
  next
    case False
    with Suc.prems have "i = x" by (simp add: last_valid_before_def)
    with False show ?thesis by auto
  qed
qed

lemma last_valid_before_None:
  "last_valid_before ys x = None \<Longrightarrow> \<forall>j < x. ys ! j = None"
  by (auto simp: last_valid_before_def filter_empty_conv split: list.splits)

lemma first_valid_after_Some:
  "first_valid_after ys x = Some j \<Longrightarrow> x < j \<and> j < length ys \<and> ys ! j \<noteq> None"
proof -
  assume "first_valid_after ys x = Some j"
  then obtain r where "filter (\<lambda>j. ys ! j \<noteq> None) [Suc x..<length ys] = j # r"
    by (auto simp: first_valid_after_def split: list.splits)
  then have "j \<in> set (filter (\<lambda>j. ys ! j \<noteq> None) [Suc x..<length ys])" by simp
  then show ?thesis by auto
qed

lemma first_valid_after_None:
  "first_valid_after ys x = None \<Longrightarrow> \<forall>j. x < j \<and> j < length ys \<longrightarrow> ys ! j = None"
  by (auto simp: first_valid_after_def filter_empty_conv split: list.splits)

lemma np_interp_None:
  assumes "np_interp ys x = None"
  shows "\<forall>j < length ys. j \<noteq> x \<longrightarrow> ys ! j = None"
proof (cases "last_valid_before ys x")
  case None
  note lb = this
  show ?thesis
  proof (cases "first_valid_after ys x")
    case None
    with lb last_valid_before_None [OF lb] first_valid_after_None [OF None]
    show ?thesis by (metis nat_neq_iff)
  next
    case (Some j)
    with lb assms first_valid_after_Some [OF Some] show ?thesis
      by (simp add: np_interp_def)
  qed
next
  case (Some i)
  note lb = this
  show ?thesis
  proof (cases "first_valid_after ys x")
    case None
    with lb assms last_valid_before_Some [OF lb] show ?thesis
      by (simp add: np_interp_def)
  next
    case (Some j)
    with lb assms show ?thesis by (simp add: np_interp_def)
  qed
qed

lemma interpolate_1d_None_iff:
  assumes "x < length ys"
  shows "interpolate_1d l ys ! x = None \<longleftrightarrow>
         (\<forall>j < length ys. x - l \<le> j \<and> j \<le> x + l \<longrightarrow> ys ! j = None)"
proof (cases "\<forall>v \<in> set ys. v = None")
  case True
  then have "interpolate_1d l ys = ys"
    by (simp add: interpolate_1d_def Let_def list_all_iff)
  with True assms show ?thesis by simp
next
  case False
  note some = this
  show ?thesis
  proof (cases "\<forall>v \<in> set ys. v \<noteq> None")
    case True
    then have "interpolate_1d l ys = ys"
      by (simp add: interpolate_1d_def Let_def list_all_iff)
    moreover have "ys ! x \<noteq> None" using True assms nth_mem by blast
    moreover have "x - l \<le> x \<and> x \<le> x + l" by simp
    ultimately show ?thesis using assms by metis
  next
    case False
    have a1: "\<not> list_all (\<lambda>b. b) (map (\<lambda>v. v = None) ys)"
      using some by (simp add: list_all_iff)
    have a2: "\<not> list_all (\<lambda>b. \<not> b) (map (\<lambda>v. v = None) ys)"
      using False by (simp add: list_all_iff)
    have "interpolate_1d l ys =
      map (\<lambda>x. if map (\<lambda>v. v = None) ys ! x
               then (if x \<in> set (interp_limit (map (\<lambda>v. v = None) ys) l l) then None
                     else np_interp ys x)
               else ys ! x) [0..<length ys]"
      unfolding interpolate_1d_def Let_def by (simp only: a1 a2 if_False)
    then have e: "interpolate_1d l ys ! x =
      (if ys ! x = None
       then (if x \<in> set (interp_limit (map (\<lambda>v. v = None) ys) l l) then None else np_interp ys x)
       else ys ! x)"
      using assms by simp
    show ?thesis
    proof (cases "ys ! x = None")
      case False
      with e assms show ?thesis by auto
    next
      case True
      note xn = this
      show ?thesis
      proof (cases "x \<in> set (interp_limit (map (\<lambda>v. v = None) ys) l l)")
        case True
        with e xn show ?thesis by (simp add: in_interp_limit)
      next
        case False
        have nn: "np_interp ys x \<noteq> None"
        proof
          assume "np_interp ys x = None"
          from np_interp_None [OF this] xn assms have "\<forall>j < length ys. ys ! j = None"
            by metis
          with some show False by (auto simp: in_set_conv_nth)
        qed
        have w: "\<not> (\<forall>j < length ys. x - l \<le> j \<and> j \<le> x + l \<longrightarrow> ys ! j = None)"
          using False assms by (simp only: in_interp_limit simp_thms)
        have "interpolate_1d l ys ! x = np_interp ys x" using e xn False by simp
        with nn have "interpolate_1d l ys ! x \<noteq> None" by simp
        with w show ?thesis by blast
      qed
    qed
  qed
qed

lemma interpolate_col:
  assumes "interpolate limit df = Inr out" and "s < length (df_cols df)"
  shows "1 \<le> limit" and "length (df_cols out) = length (df_cols df)"
    and "snd (df_cols out ! s) = interpolate_1d (nat limit) (snd (df_cols df ! s))"
proof -
  show l: "1 \<le> limit" using assms(1) by (cases "limit < 1") (simp_all add: interpolate_def)
  then have o: "out = df\<lparr>df_cols := map (\<lambda>(c, v). (c, interpolate_1d (nat limit) v)) (df_cols df)\<rparr>"
    using assms(1) by (simp add: interpolate_def)
  show "length (df_cols out) = length (df_cols df)" by (simp add: o)
  show "snd (df_cols out ! s) = interpolate_1d (nat limit) (snd (df_cols df ! s))"
    using assms(2) by (simp add: o case_prod_beta)
qed

lemma interpolate_returns:
  "1 \<le> limit \<Longrightarrow>
   interpolate limit df =
     Inr (df\<lparr>df_cols := map (\<lambda>(c, v). (c, interpolate_1d (nat limit) v)) (df_cols df)\<rparr>)"
  by (simp add: interpolate_def)

text \<open>
  C2, as the code has it. The claim says that a run of \<open>limit + 1\<close> missing samples is never
  filled completely. The code interpolates in both directions, so each end of a run is
  filled \<open>limit\<close> samples deep and a run of up to \<open>2 * limit\<close> missing samples between two
  observed values is filled completely. For every limit of at least 1, the interpolation
  that \<^verbatim>\<open>_interpolate_one\<close> applies to the minute series returns, and in each station's
  series a sample is missing afterwards exactly when every sample at most \<open>limit\<close> positions
  away from it was missing before. So a run of \<open>2 * limit + 1\<close> or more missing samples is
  never filled completely: the sample \<open>limit\<close> positions after the start of any
  \<open>2 * limit + 1\<close> consecutive missing samples is still missing.
\<close>

theorem interpolate_long_gap:
  assumes "1 \<le> limit" and "s < length (df_cols df)"
  shows "\<exists>out. interpolate limit df = Inr out
         \<and> length (df_cols out) = length (df_cols df)
         \<and> length (snd (df_cols out ! s)) = length (snd (df_cols df ! s))
         \<and> (\<forall>x < length (snd (df_cols df ! s)).
              (snd (df_cols out ! s) ! x = None) =
              (\<forall>j < length (snd (df_cols df ! s)).
                 x - nat limit \<le> j \<and> j \<le> x + nat limit \<longrightarrow> snd (df_cols df ! s) ! j = None))
         \<and> (\<forall>i. i + 2 * nat limit < length (snd (df_cols df ! s))
                \<and> (\<forall>j. i \<le> j \<and> j \<le> i + 2 * nat limit \<longrightarrow> snd (df_cols df ! s) ! j = None)
              \<longrightarrow> snd (df_cols out ! s) ! (i + nat limit) = None)"
proof -
  define ys where "ys = snd (df_cols df ! s)"
  define l where "l = nat limit"
  define out where
    "out = df\<lparr>df_cols := map (\<lambda>(c, v). (c, interpolate_1d (nat limit) v)) (df_cols df)\<rparr>"
  have run: "interpolate limit df = Inr out"
    unfolding out_def by (rule interpolate_returns [OF assms(1)])
  note c = interpolate_col [OF run assms(2)]
  have o: "snd (df_cols out ! s) = interpolate_1d l ys" using c(3) by (simp add: ys_def l_def)
  have p1: "(interpolate_1d l ys ! x = None) =
            (\<forall>j < length ys. x - l \<le> j \<and> j \<le> x + l \<longrightarrow> ys ! j = None)"
    if "x < length ys" for x
    by (rule interpolate_1d_None_iff [OF that])
  have p2: "interpolate_1d l ys ! (i + l) = None"
    if "i + 2 * l < length ys" "\<forall>j. i \<le> j \<and> j \<le> i + 2 * l \<longrightarrow> ys ! j = None" for i
  proof -
    have x: "i + l < length ys" using that(1) by simp
    have "\<forall>j < length ys. i + l - l \<le> j \<and> j \<le> i + l + l \<longrightarrow> ys ! j = None"
    proof (intro allI impI)
      fix j assume "j < length ys" and "i + l - l \<le> j \<and> j \<le> i + l + l"
      then have "i \<le> j \<and> j \<le> i + 2 * l" by simp
      then show "ys ! j = None" by (rule that(2) [rule_format])
    qed
    then show ?thesis by (simp only: p1 [OF x])
  qed
  have body: "interpolate limit df = Inr out
         \<and> length (df_cols out) = length (df_cols df)
         \<and> length (snd (df_cols out ! s)) = length ys
         \<and> (\<forall>x < length ys.
              (snd (df_cols out ! s) ! x = None) =
              (\<forall>j < length ys. x - l \<le> j \<and> j \<le> x + l \<longrightarrow> ys ! j = None))
         \<and> (\<forall>i. i + 2 * l < length ys
                \<and> (\<forall>j. i \<le> j \<and> j \<le> i + 2 * l \<longrightarrow> ys ! j = None)
              \<longrightarrow> snd (df_cols out ! s) ! (i + l) = None)"
    unfolding o
  proof (intro conjI allI impI)
    show "interpolate limit df = Inr out" by (rule run)
    show "length (df_cols out) = length (df_cols df)" by (rule c(2))
    show "length (interpolate_1d l ys) = length ys" by (rule length_interpolate_1d)
  next
    fix x assume "x < length ys"
    then show "(interpolate_1d l ys ! x = None) =
               (\<forall>j < length ys. x - l \<le> j \<and> j \<le> x + l \<longrightarrow> ys ! j = None)"
      by (rule p1)
  next
    fix i assume "i + 2 * l < length ys
                \<and> (\<forall>j. i \<le> j \<and> j \<le> i + 2 * l \<longrightarrow> ys ! j = None)"
    then show "interpolate_1d l ys ! (i + l) = None"
      by (intro p2) (erule conjunct1, erule conjunct2)
  qed
  show ?thesis by (rule exI [of _ out]) (rule body [unfolded ys_def l_def])
qed

theorem interpolate_long_gap_witness:
  "\<exists>out. interpolate 1 \<lparr>df_index = [0, 1, 2, 3, 4],
                  df_cols = [(''01010000'', [Some 1, None, None, None, Some 5])]\<rparr> = Inr out
   \<and> length (snd (df_cols out ! 0)) = 5
   \<and> snd (df_cols out ! 0) ! (1 + nat 1) = None"
proof -
  let ?df = "\<lparr>df_index = [0, 1, 2, 3, 4],
              df_cols = [(''01010000'', [Some 1, None, None, None, Some (5 :: real)])]\<rparr>"
  have l: "(1 :: int) \<le> 1" by simp
  have s: "0 < length (df_cols ?df)" by simp
  have n: "1 + 2 * nat 1 < length (snd (df_cols ?df ! 0))" by simp
  have g: "\<forall>j. 1 \<le> j \<and> j \<le> 1 + 2 * nat 1 \<longrightarrow> snd (df_cols ?df ! 0) ! j = None"
  proof (intro allI impI)
    fix j :: nat assume "1 \<le> j \<and> j \<le> 1 + 2 * nat 1"
    then have "j = 1 \<or> j = 2 \<or> j = 3" by auto
    then show "snd (df_cols ?df ! 0) ! j = None" by auto
  qed
  from interpolate_long_gap [OF l s] obtain out where
    run: "interpolate 1 ?df = Inr out"
    and len: "length (snd (df_cols out ! 0)) = length (snd (df_cols ?df ! 0))"
    and gap: "\<forall>i. i + 2 * nat 1 < length (snd (df_cols ?df ! 0))
                \<and> (\<forall>j. i \<le> j \<and> j \<le> i + 2 * nat 1 \<longrightarrow> snd (df_cols ?df ! 0) ! j = None)
              \<longrightarrow> snd (df_cols out ! 0) ! (i + nat 1) = None"
    by blast
  have "snd (df_cols out ! 0) ! (1 + nat 1) = None"
    using gap [rule_format, of 1] n g by blast
  moreover have "length (snd (df_cols out ! 0)) = 5" using len by simp
  ultimately show ?thesis using run by blast
qed

text \<open>
  A run of \<open>limit + 1\<close> missing minutes that is filled completely: with a limit of 1, the
  two minutes between observations at minutes 0 and 3; and with the default limit of 59,
  sixty missing samples between two observed ones.
\<close>

theorem interpolate_fills_longer_gap_counterexample:
  "resample_asfreq 1 \<lparr>df_index = [0, 3], df_cols = [(''01010000'', [Some 1, Some 4])]\<rparr> =
     Inr \<lparr>df_index = [0, 1, 2, 3], df_cols = [(''01010000'', [Some 1, None, None, Some 4])]\<rparr>
   \<and> interpolate_one \<lparr>df_index = [0, 3], df_cols = [(''01010000'', [Some 1, Some 4])]\<rparr> 1 1 =
     Inr (4, [[Some 1, Some 2, Some 3, Some 4]])
   \<and> None \<notin> set (interpolate_1d 59 (Some 0 # replicate 60 None @ [Some 61]))"
proof -
  let ?ys = "Some 0 # replicate 60 None @ [Some (61 :: real)]"
  have a: "resample_asfreq 1 \<lparr>df_index = [0, 3], df_cols = [(''01010000'', [Some 1, Some 4])]\<rparr> =
     Inr \<lparr>df_index = [0, 1, 2, 3], df_cols = [(''01010000'', [Some 1, None, None, Some 4])]\<rparr>"
    by code_simp
  have b: "interpolate_one \<lparr>df_index = [0, 3], df_cols = [(''01010000'', [Some 1, Some 4])]\<rparr> 1 1 =
     Inr (4, [[Some 1, Some 2, Some 3, Some 4]])"
    by code_simp
  have c: "None \<notin> set (interpolate_1d 59 ?ys)"
  proof
    assume "None \<in> set (interpolate_1d 59 ?ys)"
    then obtain x where "x < length (interpolate_1d 59 ?ys)"
      and n: "interpolate_1d 59 ?ys ! x = None"
      unfolding in_set_conv_nth by blast
    then have x: "x < length ?ys" by (simp only: length_interpolate_1d)
    from n interpolate_1d_None_iff [OF x, of 59]
    have w: "\<forall>j < length ?ys. x - 59 \<le> j \<and> j \<le> x + 59 \<longrightarrow> ?ys ! j = None" by blast
    have l: "length ?ys = 62" by simp
    show False
    proof (cases "x \<le> 59")
      case True
      have "?ys ! 0 = None" by (rule w [rule_format]) (use True in simp_all)
      then show False by simp
    next
      case False
      have "?ys ! 61 = None" by (rule w [rule_format]) (use False x in simp_all)
      then show False by (simp add: nth_append nth_Cons')
    qed
  qed
  from a b c show ?thesis by (intro conjI)
qed

lemma last_valid_before_eq:
  assumes "i < x" and "ys ! i \<noteq> None" and "\<forall>j. i < j \<and> j < x \<longrightarrow> ys ! j = None"
  shows "last_valid_before ys x = Some i"
proof (cases "last_valid_before ys x")
  case None
  have "ys ! i = None"
    using last_valid_before_None [OF None, rule_format, OF assms(1)] .
  with assms(2) show ?thesis by simp
next
  case (Some k)
  note p = last_valid_before_Some [OF Some]
  have k1: "k < x" using p by (rule conjunct1)
  have k2: "ys ! k \<noteq> None" using p by (elim conjE)
  have k3: "\<forall>j. k < j \<and> j < x \<longrightarrow> ys ! j = None" using p by (elim conjE)
  have "\<not> k < i"
  proof
    assume "k < i"
    then have "ys ! i = None" using k3 [rule_format, of i] assms(1) by simp
    with assms(2) show False by simp
  qed
  moreover have "\<not> i < k"
  proof
    assume "i < k"
    then have "ys ! k = None" using assms(3) [rule_format, of k] k1 by simp
    with k2 show False by simp
  qed
  ultimately have "k = i" by simp
  with Some show ?thesis by simp
qed

lemma first_valid_after_eq_None:
  assumes "\<forall>j. x < j \<and> j < length ys \<longrightarrow> ys ! j = None"
  shows "first_valid_after ys x = None"
proof (cases "first_valid_after ys x")
  case None
  then show ?thesis .
next
  case (Some j)
  note p = first_valid_after_Some [OF Some]
  have "x < j \<and> j < length ys" using p by simp
  then have "ys ! j = None" by (rule assms [rule_format])
  moreover have "ys ! j \<noteq> None" using p by simp
  ultimately show ?thesis by simp
qed

text \<open>
  C3, as the code has it. The claim says that a missing final sample stays missing. With
  \<^verbatim>\<open>limit_direction = 'both'\<close> and no \<^verbatim>\<open>limit_area\<close>, pandas fills the missing samples
  after the last observed value too, up to \<open>limit\<close> of them, with that last value. So a
  missing final sample stays missing exactly when each of the \<open>limit\<close> samples before it
  (all of them, in a shorter series) is missing; when the last observed value is at most
  \<open>limit\<close> positions before the end, the final sample becomes that value.
\<close>

theorem interpolate_trailing_sample:
  assumes "1 \<le> limit" and "s < length (df_cols df)"
    and "snd (df_cols df ! s) \<noteq> []" and "last (snd (df_cols df ! s)) = None"
  shows "\<exists>out. interpolate limit df = Inr out
       \<and> ((last (snd (df_cols out ! s)) = None) =
          (\<forall>j < length (snd (df_cols df ! s)).
             length (snd (df_cols df ! s)) - 1 - nat limit \<le> j \<longrightarrow> snd (df_cols df ! s) ! j = None))
       \<and> (\<forall>i < length (snd (df_cols df ! s)).
             snd (df_cols df ! s) ! i \<noteq> None
             \<and> (\<forall>j. i < j \<and> j < length (snd (df_cols df ! s)) \<longrightarrow> snd (df_cols df ! s) ! j = None)
             \<and> length (snd (df_cols df ! s)) - 1 - nat limit \<le> i
             \<longrightarrow> last (snd (df_cols out ! s)) = snd (df_cols df ! s) ! i)"
proof -
  define ys where "ys = snd (df_cols df ! s)"
  define l where "l = nat limit"
  define x where "x = length ys - 1"
  define out where
    "out = df\<lparr>df_cols := map (\<lambda>(c, v). (c, interpolate_1d (nat limit) v)) (df_cols df)\<rparr>"
  have run: "interpolate limit df = Inr out"
    unfolding out_def by (rule interpolate_returns [OF assms(1)])
  note c = interpolate_col [OF run assms(2)]
  have o: "snd (df_cols out ! s) = interpolate_1d l ys" using c(3) by (simp add: ys_def l_def)
  have ne: "ys \<noteq> []" and la: "last ys = None" using assms(3,4) by (simp_all add: ys_def)
  have x: "x < length ys" using ne by (simp add: x_def)
  have yx: "ys ! x = None" using la ne by (simp add: x_def last_conv_nth)
  have n0: "interpolate_1d l ys \<noteq> []"
  proof
    assume "interpolate_1d l ys = []"
    then have "length (interpolate_1d l ys) = 0" by simp
    then have "length ys = 0" by (simp only: length_interpolate_1d)
    with ne show False by simp
  qed
  have lo: "last (interpolate_1d l ys) = interpolate_1d l ys ! x"
    unfolding x_def last_conv_nth [OF n0] by (simp only: length_interpolate_1d)
  have p1: "(last (interpolate_1d l ys) = None) =
            (\<forall>j < length ys. x - l \<le> j \<longrightarrow> ys ! j = None)"
  proof -
    have "j \<le> x + l" if "j < length ys" for j using that by (simp add: x_def)
    then have "(\<forall>j < length ys. x - l \<le> j \<and> j \<le> x + l \<longrightarrow> ys ! j = None) =
          (\<forall>j < length ys. x - l \<le> j \<longrightarrow> ys ! j = None)"
      by blast
    then show ?thesis unfolding lo interpolate_1d_None_iff [OF x] .
  qed
  have p2: "last (interpolate_1d l ys) = ys ! i"
    if i: "i < length ys" "ys ! i \<noteq> None"
      "\<forall>j. i < j \<and> j < length ys \<longrightarrow> ys ! j = None" "x - l \<le> i" for i
  proof -
    have "i \<noteq> x"
    proof
      assume "i = x"
      then have "ys ! i = None" by (simp only: yx)
      with i(2) show False by simp
    qed
    moreover have "i \<le> x" using i(1) by (simp add: x_def)
    ultimately have ix: "i < x" by simp
    have mi: "ys ! i \<in> set ys" using i(1) by simp
    have some: "\<not> (\<forall>v \<in> set ys. v = None)"
    proof
      assume "\<forall>v \<in> set ys. v = None"
      then have "ys ! i = None" using mi by (rule bspec)
      with i(2) show False by simp
    qed
    have mx: "ys ! x \<in> set ys" using x by simp
    have none: "\<not> (\<forall>v \<in> set ys. v \<noteq> None)"
    proof
      assume "\<forall>v \<in> set ys. v \<noteq> None"
      then have "ys ! x \<noteq> None" using mx by (rule bspec)
      with yx show False by simp
    qed
    have a1: "\<not> list_all (\<lambda>b. b) (map (\<lambda>v. v = None) ys)"
      using some by (simp add: list_all_iff)
    have a2: "\<not> list_all (\<lambda>b. \<not> b) (map (\<lambda>v. v = None) ys)"
      using none by (simp add: list_all_iff)
    have "interpolate_1d l ys =
      map (\<lambda>x. if map (\<lambda>v. v = None) ys ! x
               then (if x \<in> set (interp_limit (map (\<lambda>v. v = None) ys) l l) then None
                     else np_interp ys x)
               else ys ! x) [0..<length ys]"
      unfolding interpolate_1d_def Let_def by (simp only: a1 a2 if_False)
    then have e: "interpolate_1d l ys ! x =
      (if x \<in> set (interp_limit (map (\<lambda>v. v = None) ys) l l) then None else np_interp ys x)"
      using x yx by simp
    have k1: "x \<notin> set (interp_limit (map (\<lambda>v. v = None) ys) l l)"
    proof
      assume "x \<in> set (interp_limit (map (\<lambda>v. v = None) ys) l l)"
      then have "x < length ys \<and>
          (\<forall>j < length ys. x - l \<le> j \<and> j \<le> x + l \<longrightarrow> ys ! j = None)"
        by (rule in_interp_limit [THEN iffD1])
      then have "\<forall>j < length ys. x - l \<le> j \<and> j \<le> x + l \<longrightarrow> ys ! j = None"
        by (rule conjunct2)
      moreover have "x - l \<le> i \<and> i \<le> x + l" using i(4) ix by simp
      ultimately have "ys ! i = None" using i(1) by simp
      with i(2) show False by blast
    qed
    have k2: "last_valid_before ys x = Some i"
    proof (rule last_valid_before_eq [OF ix i(2)])
      show "\<forall>j. i < j \<and> j < x \<longrightarrow> ys ! j = None"
      proof (intro allI impI)
        fix j assume "i < j \<and> j < x"
        then have "i < j \<and> j < length ys" using x by simp
        then show "ys ! j = None" by (rule i(3) [rule_format])
      qed
    qed
    have k3: "first_valid_after ys x = None"
    proof (rule first_valid_after_eq_None, intro allI impI)
      fix j assume "x < j \<and> j < length ys"
      then have False unfolding x_def by linarith
      then show "ys ! j = None" ..
    qed
    show ?thesis unfolding lo e by (simp add: np_interp_def k1 k2 k3)
  qed
  have body: "interpolate limit df = Inr out
       \<and> ((last (snd (df_cols out ! s)) = None) =
          (\<forall>j < length ys. length ys - 1 - l \<le> j \<longrightarrow> ys ! j = None))
       \<and> (\<forall>i < length ys.
             ys ! i \<noteq> None
             \<and> (\<forall>j. i < j \<and> j < length ys \<longrightarrow> ys ! j = None)
             \<and> length ys - 1 - l \<le> i
             \<longrightarrow> last (snd (df_cols out ! s)) = ys ! i)"
    unfolding o
  proof (intro conjI allI impI)
    show "interpolate limit df = Inr out" by (rule run)
    show "(last (interpolate_1d l ys) = None) =
          (\<forall>j < length ys. length ys - 1 - l \<le> j \<longrightarrow> ys ! j = None)"
      using p1 unfolding x_def .
  next
    fix i assume i: "i < length ys"
      and h: "ys ! i \<noteq> None
             \<and> (\<forall>j. i < j \<and> j < length ys \<longrightarrow> ys ! j = None)
             \<and> length ys - 1 - l \<le> i"
    show "last (interpolate_1d l ys) = ys ! i"
    proof (rule p2 [OF i])
      show "ys ! i \<noteq> None" using h by (rule conjunct1)
      show "\<forall>j. i < j \<and> j < length ys \<longrightarrow> ys ! j = None"
        using h by (elim conjE)
      show "x - l \<le> i" unfolding x_def using h by (elim conjE)
    qed
  qed
  show ?thesis by (rule exI [of _ out]) (rule body [unfolded ys_def l_def])
qed

theorem interpolate_trailing_sample_witness:
  "\<exists>out. interpolate 59 \<lparr>df_index = [0, 1, 2],
                  df_cols = [(''01010000'', [Some 10, None, None])]\<rparr> = Inr out
   \<and> last (snd (df_cols out ! 0)) = Some 10"
proof -
  let ?df = "\<lparr>df_index = [0, 1, 2], df_cols = [(''01010000'', [Some (10 :: real), None, None])]\<rparr>"
  have l: "(1 :: int) \<le> 59" by simp
  have s: "0 < length (df_cols ?df)" by simp
  have ne: "snd (df_cols ?df ! 0) \<noteq> []" by simp
  have la: "last (snd (df_cols ?df ! 0)) = None" by simp
  from interpolate_trailing_sample [OF l s ne la] obtain out where
    run: "interpolate 59 ?df = Inr out"
    and val: "\<forall>i < length (snd (df_cols ?df ! 0)).
             snd (df_cols ?df ! 0) ! i \<noteq> None
             \<and> (\<forall>j. i < j \<and> j < length (snd (df_cols ?df ! 0)) \<longrightarrow> snd (df_cols ?df ! 0) ! j = None)
             \<and> length (snd (df_cols ?df ! 0)) - 1 - nat 59 \<le> i
             \<longrightarrow> last (snd (df_cols out ! 0)) = snd (df_cols ?df ! 0) ! i"
    by blast
  have n: "\<forall>j. 0 < j \<and> j < length (snd (df_cols ?df ! 0)) \<longrightarrow> snd (df_cols ?df ! 0) ! j = None"
  proof (intro allI impI)
    fix j :: nat assume "0 < j \<and> j < length (snd (df_cols ?df ! 0))"
    then have "j = 1 \<or> j = 2" by auto
    then show "snd (df_cols ?df ! 0) ! j = None" by auto
  qed
  have "last (snd (df_cols out ! 0)) = snd (df_cols ?df ! 0) ! 0"
  proof (rule val [rule_format, of 0])
    show "0 < length (snd (df_cols ?df ! 0))" by simp
    show "snd (df_cols ?df ! 0) ! 0 \<noteq> None
          \<and> (\<forall>j. 0 < j \<and> j < length (snd (df_cols ?df ! 0)) \<longrightarrow> snd (df_cols ?df ! 0) ! j = None)
          \<and> length (snd (df_cols ?df ! 0)) - 1 - nat 59 \<le> 0"
      using n by simp
  qed
  then have "last (snd (df_cols out ! 0)) = Some 10" by simp
  with run show ?thesis by blast
qed

text \<open>
  The example of the specification: observations at 00:00 and 00:15, the second one
  removed by the quality control, the default limit and a target of 15 minutes. The
  trailing sample is filled with the value of 00:00.
\<close>

theorem interpolate_fills_trailing_counterexample:
  "interpolate_one \<lparr>df_index = [0, 15], df_cols = [(''01010000'', [Some 10, None])]\<rparr> 59 15 =
     Inr (2, [[Some 10, Some 10]])"
  by code_simp

subsection \<open>Chunked interpolation\<close>

lemma mapM_err_map: "mapM_err f (map g xs) = mapM_err (\<lambda>x. f (g x)) xs"
  by (induction xs) (simp_all split: sum.splits)

lemma mapM_err_all_Inr:
  "(\<And>x. x \<in> set xs \<Longrightarrow> f x = Inr (g x)) \<Longrightarrow> mapM_err f xs = Inr (map g xs)"
  by (induction xs) simp_all

lemma mapM_err_first_Inl:
  "xs \<noteq> [] \<Longrightarrow> f (hd xs) = Inl e \<Longrightarrow> mapM_err f xs = Inl e"
  by (cases xs) simp_all

lemma concat_chunks:
  assumes "0 < stp"
  shows "length xs \<le> m * stp \<Longrightarrow>
         concat (map (\<lambda>a. take stp (drop (a * stp) xs)) [0..<m]) = xs"
proof (induction m arbitrary: xs)
  case 0
  then show ?case by simp
next
  case (Suc m)
  have l: "length (drop stp xs) \<le> m * stp" using Suc.prems by simp
  have e: "take stp (drop (Suc a * stp) xs) = take stp (drop (a * stp) (drop stp xs))" for a
    by (simp add: add.commute)
  have "concat (map (\<lambda>a. take stp (drop (a * stp) xs)) [0..<Suc m]) =
        take stp xs @ concat (map (\<lambda>a. take stp (drop (Suc a * stp) xs)) [0..<m])"
    by (simp only: map_upt_shift concat.simps mult_0 drop_0)
  also have "\<dots> = take stp xs @ concat (map (\<lambda>a. take stp (drop (a * stp) (drop stp xs))) [0..<m])"
    by (simp only: e)
  also have "\<dots> = take stp xs @ drop stp xs" by (simp only: Suc.IH [OF l])
  finally show ?case by simp
qed

lemma range_covers:
  fixes n stp :: nat
  assumes "0 < stp"
  shows "n \<le> ((n + stp - 1) div stp) * stp"
proof -
  define q where "q = (n + stp - 1) div stp"
  define r where "r = (n + stp - 1) mod stp"
  have "q * stp + r = n + stp - 1" unfolding q_def r_def by (rule div_mult_mod_eq)
  moreover have "r < stp" unfolding r_def using assms by (rule mod_less_divisor)
  ultimately have "n \<le> q * stp" by linarith
  then show ?thesis unfolding q_def .
qed

text \<open>The slices \<^verbatim>\<open>start:stop\<close> of the loop, in order, are the columns.\<close>

lemma chunk_slices:
  "concat (map (\<lambda>i. take ((if i + step - 1 < length xs then i + step else length xs) - i)
                        (drop i xs))
               (py_range (length xs) step)) = xs"
proof -
  have s: "0 < step" by (simp add: step_def)
  have t: "take ((if i + step - 1 < length xs then i + step else length xs) - i) (drop i xs)
           = take step (drop i xs)" for i
  proof (cases "i + step - 1 < length xs")
    case True
    then show ?thesis by simp
  next
    case False
    then have "length (drop i xs) \<le> step" using s by simp
    moreover have "length (drop i xs) \<le> length xs - i" by simp
    ultimately show ?thesis using False by simp
  qed
  have "concat (map (\<lambda>i. take step (drop i xs)) (py_range (length xs) step)) =
        concat (map (\<lambda>a. take step (drop (a * step) xs)) [0..<(length xs + step - 1) div step])"
    by (simp add: py_range_def o_def)
  also have "\<dots> = xs" by (rule concat_chunks [OF s range_covers [OF s]])
  finally show ?thesis by (simp only: t)
qed

lemma py_range_nonempty: "0 < n \<Longrightarrow> py_range n step \<noteq> [] \<and> hd (py_range n step) = 0"
proof -
  assume n: "0 < n"
  have s: "0 < step" by (simp add: step_def)
  have m: "0 < (n + step - 1) div step"
  proof (rule ccontr)
    assume "\<not> 0 < (n + step - 1) div step"
    then have z: "(n + step - 1) div step = 0" by (simp only: not_gr_zero)
    have "n \<le> ((n + step - 1) div step) * step" by (rule range_covers [OF s])
    then have "n \<le> 0 * step" unfolding z .
    then have "n = 0" by simp
    with n show False by simp
  qed
  then have "[0..<(n + step - 1) div step] = 0 # [Suc 0..<(n + step - 1) div step]"
    by (simp add: upt_conv_Cons)
  then show ?thesis by (simp add: py_range_def)
qed

lemma interpolate_one_columns:
  "interpolate_one df limit k =
     (if limit < 1 \<or> k < 1 then Inl ValueError
      else Inr (length (resample_grid k (resample_grid 1 (df_index df))),
                map (interpolated_column (df_index df) limit k) (map snd (df_cols df))))"
  by (simp add: interpolate_one_def resample_asfreq_def interpolate_def bind_err_def Let_def
        to_numpy_def interpolated_column_def case_prod_beta o_def)

text \<open>Resampling the minute grid of an index gives the grid of the index itself.\<close>

lemma fold_min_hd: "xs \<noteq> [] \<Longrightarrow> fold min xs (hd xs) = Min (set xs)"
proof -
  assume "xs \<noteq> []"
  then obtain h t where x: "xs = h # t" by (cases xs) auto
  have "fold min (h # t) h = fold min t h" by simp
  also have "\<dots> = Min (set (h # t))" by (rule Min.set_eq_fold [symmetric])
  finally show ?thesis by (simp add: x)
qed

lemma fold_max_hd: "xs \<noteq> [] \<Longrightarrow> fold max xs (hd xs) = Max (set xs)"
proof -
  assume "xs \<noteq> []"
  then obtain h t where x: "xs = h # t" by (cases xs) auto
  have "fold max (h # t) h = fold max t h" by simp
  also have "\<dots> = Max (set (h # t))" by (rule Max.set_eq_fold [symmetric])
  finally show ?thesis by (simp add: x)
qed

lemma minute_grid:
  assumes "idx \<noteq> []"
  shows "resample_grid 1 idx =
           map (\<lambda>i. Min (set idx) + int i) [0..<nat (Max (set idx) - Min (set idx)) + 1]"
  using assms
  by (simp add: resample_grid_def Let_def fold_min_hd fold_max_hd)

lemma Min_minute_grid:
  fixes a :: int
  shows "Min (set (map (\<lambda>i. a + int i) [0..<Suc n])) = a"
proof (rule Min_eqI)
  show "finite (set (map (\<lambda>i. a + int i) [0..<Suc n]))" by simp
  show "a \<le> y" if "y \<in> set (map (\<lambda>i. a + int i) [0..<Suc n])" for y
    using that by auto
  have "0 \<in> set [0..<Suc n]" by (simp only: set_upt atLeastLessThan_iff) simp
  then have "a + int 0 \<in> (\<lambda>i. a + int i) ` set [0..<Suc n]" by (rule imageI)
  then show "a \<in> set (map (\<lambda>i. a + int i) [0..<Suc n])" by simp
qed

lemma Max_minute_grid:
  fixes a :: int
  shows "Max (set (map (\<lambda>i. a + int i) [0..<Suc n])) = a + int n"
proof (rule Max_eqI)
  show "finite (set (map (\<lambda>i. a + int i) [0..<Suc n]))" by simp
  show "y \<le> a + int n" if "y \<in> set (map (\<lambda>i. a + int i) [0..<Suc n])" for y
    using that by auto
  have "a + int n \<in> (\<lambda>i. a + int i) ` set [0..<Suc n]" by (rule imageI) simp
  then show "a + int n \<in> set (map (\<lambda>i. a + int i) [0..<Suc n])" by simp
qed

lemma resample_minute_grid:
  "resample_grid k (resample_grid 1 idx) = resample_grid k idx"
proof (cases "idx = []")
  case True
  then show ?thesis by (simp add: resample_grid_def)
next
  case False
  define a where "a = Min (set idx)"
  define b where "b = Max (set idx)"
  define n where "n = nat (b - a)"
  have ab: "a \<le> b" unfolding a_def b_def using False by (simp add: Min_le_iff)
  have m: "resample_grid 1 idx = map (\<lambda>i. a + int i) [0..<Suc n]"
    using minute_grid [OF False] by (simp add: a_def b_def n_def)
  have ne: "resample_grid 1 idx \<noteq> []" unfolding m by simp
  have mn: "Min (set (resample_grid 1 idx)) = a" unfolding m by (rule Min_minute_grid)
  have "Max (set (resample_grid 1 idx)) = a + int n" unfolding m by (rule Max_minute_grid)
  then have mx: "Max (set (resample_grid 1 idx)) = b" using ab by (simp add: n_def)
  have l: "resample_grid k (resample_grid 1 idx) =
      (let t_first = a; t_last = b; origin = t_first div 1440 * 1440;
           start = origin + (t_first - origin) div k * k;
           stop = origin + (t_last - origin) div k * k
       in map (\<lambda>i. start + k * int i) [0..<nat ((stop - start) div k) + 1])"
    using ne by (simp only: resample_grid_def [of k "resample_grid 1 idx"] fold_min_hd [OF ne]
        fold_max_hd [OF ne] mn mx if_False)
  have r: "resample_grid k idx =
      (let t_first = a; t_last = b; origin = t_first div 1440 * 1440;
           start = origin + (t_first - origin) div k * k;
           stop = origin + (t_last - origin) div k * k
       in map (\<lambda>i. start + k * int i) [0..<nat ((stop - start) div k) + 1])"
    using False by (simp only: resample_grid_def [of k idx] fold_min_hd [OF False]
        fold_max_hd [OF False] a_def b_def if_False)
  show ?thesis unfolding l r ..
qed

text \<open>
  C9. For every table with at least one station and every number of workers that joblib
  accepts, interpolating the stations in chunks of 200 columns and concatenating the
  results in chunk order gives what one call over all the columns gives: the same
  exception, or the same frame. With a limit and a frequency of at least 1 both return the
  frame on the target grid whose column for each station is that station's column
  resampled to minutes, interpolated and read off at the target grid; the number of
  workers does not appear in it.
\<close>

theorem chunked_interpolation_unchunked:
  assumes "df_cols observation_df_T \<noteq> []" and "cpu_pool \<noteq> Some 0"
  shows "read_timeslice_interp observation_df_T frequency_secs cpu_pool interpolation_limit
           = interpolate_all_columns observation_df_T frequency_secs interpolation_limit
       \<and> (1 \<le> interpolation_limit \<and> 1 \<le> frequency_minutes frequency_secs \<longrightarrow>
            read_timeslice_interp observation_df_T frequency_secs cpu_pool interpolation_limit =
              Inr \<lparr>df_index = resample_grid (frequency_minutes frequency_secs)
                                (df_index observation_df_T),
                   df_cols = zip (map fst (df_cols observation_df_T))
                     (map (interpolated_column (df_index observation_df_T) interpolation_limit
                             (frequency_minutes frequency_secs))
                        (map snd (df_cols observation_df_T)))\<rparr>)"
proof -
  define T where "T = observation_df_T"
  define L where "L = interpolation_limit"
  define k where "k = frequency_minutes frequency_secs"
  define cols where "cols = df_cols T"
  define n where "n = length cols"
  define idx where "idx = df_index T"
  define stop where "stop = (\<lambda>i. if i + step - 1 < n then i + step else n)"
  define job where "job = (\<lambda>i. interpolate_one (iloc_cols T i (stop i)) L k)"
  define G where "G = resample_grid k idx"
  define names where "names = map fst cols"
  have n0: "0 < n" using assms(1) by (simp add: n_def cols_def T_def)
  note rng = py_range_nonempty [OF n0]
  have unch: "interpolate_all_columns T frequency_secs L =
      bind_err (resample_asfreq k T) (\<lambda>buffer_df.
      bind_err (interpolate_one T L k) (\<lambda>data.
        DataFrame data (map fst (df_cols buffer_df)) (df_index buffer_df)))"
    by (simp only: interpolate_all_columns_def Let_def k_def)
  have ch_bad: "read_timeslice_interp T frequency_secs cpu_pool L = Inl ValueError"
    if "k < 1"
    using that
    by (simp add: read_timeslice_interp_def Let_def k_def [symmetric] resample_asfreq_def
        bind_err_def)
  have un_bad: "interpolate_all_columns T frequency_secs L = Inl ValueError" if "k < 1"
    using that by (simp add: unch resample_asfreq_def bind_err_def)
  have buf: "resample_asfreq k T =
      Inr \<lparr>df_index = G, df_cols = map (\<lambda>(c, v). (c, reindex idx G v)) cols\<rparr>"
    if "1 \<le> k"
    using that by (simp add: resample_asfreq_def Let_def G_def idx_def cols_def)
  have bcols: "length (df_cols \<lparr>df_index = G, df_cols = map (\<lambda>(c, v). (c, reindex idx G v)) cols\<rparr>) = n"
    "map fst (df_cols \<lparr>df_index = G, df_cols = map (\<lambda>(c, v). (c, reindex idx G v)) cols\<rparr>) = names"
    "df_index \<lparr>df_index = G, df_cols = map (\<lambda>(c, v). (c, reindex idx G v)) cols\<rparr> = G"
    by (simp_all add: n_def names_def case_prod_beta o_def)
  have ch: "read_timeslice_interp T frequency_secs cpu_pool L =
      bind_err (mapM_err job (py_range n step)) (\<lambda>interp_chunks.
      bind_err (concatenate interp_chunks) (\<lambda>data. DataFrame data names G))"
    if "1 \<le> k"
  proof -
    have "read_timeslice_interp T frequency_secs cpu_pool L =
      bind_err (Parallel cpu_pool (map (\<lambda>i. (\<lambda>_ :: unit. job i)) (py_range n step)))
        (\<lambda>interp_chunks.
      bind_err (concatenate interp_chunks) (\<lambda>data. DataFrame data names G))"
      by (simp add: read_timeslice_interp_def Let_def k_def [symmetric] buf [OF that]
          bind_err_def job_def stop_def n_def names_def cols_def case_prod_beta o_def
          cong: if_cong split: sum.splits)
    also have "Parallel cpu_pool (map (\<lambda>i. (\<lambda>_ :: unit. job i)) (py_range n step)) =
               mapM_err job (py_range n step)"
      using assms(2) by (simp add: Parallel_def mapM_err_map)
    finally show ?thesis .
  qed
  have slices: "map snd (df_cols (iloc_cols T i (stop i))) = map snd (take (stop i - i) (drop i cols))"
    and sidx: "df_index (iloc_cols T i (stop i)) = idx" for i
    by (simp_all add: iloc_cols_def cols_def idx_def)
  have both_bad: "read_timeslice_interp T frequency_secs cpu_pool L = Inl ValueError
                \<and> interpolate_all_columns T frequency_secs L = Inl ValueError"
    if k1: "1 \<le> k" and l0: "L < 1"
  proof
    have "job (hd (py_range n step)) = Inl ValueError"
      using l0 by (simp add: job_def interpolate_one_columns)
    then have "mapM_err job (py_range n step) = Inl ValueError"
      using rng by (intro mapM_err_first_Inl) simp_all
    then show "read_timeslice_interp T frequency_secs cpu_pool L = Inl ValueError"
      by (simp add: ch [OF k1] bind_err_def)
    show "interpolate_all_columns T frequency_secs L = Inl ValueError"
      using l0 by (simp add: unch buf [OF k1] bind_err_def interpolate_one_columns)
  qed
  define rows where "rows = length (resample_grid k (resample_grid 1 idx))"
  define F where "F = interpolated_column idx L k"
  have good: "read_timeslice_interp T frequency_secs cpu_pool L = DataFrame (rows, map F (map snd cols)) names G
            \<and> interpolate_all_columns T frequency_secs L = DataFrame (rows, map F (map snd cols)) names G"
    if k1: "1 \<le> k" and l1: "1 \<le> L"
  proof
    have j: "job i = Inr (rows, map F (map snd (take (stop i - i) (drop i cols))))" for i
      using k1 l1
      by (simp add: job_def interpolate_one_columns slices sidx rows_def F_def)
    have mm: "mapM_err job (py_range n step) =
          Inr (map (\<lambda>i. (rows, map F (map snd (take (stop i - i) (drop i cols))))) (py_range n step))"
      by (rule mapM_err_all_Inr) (rule j)
    obtain i0 rest where pr: "py_range n step = i0 # rest"
      using rng by (cases "py_range n step") simp_all
    have cc: "concat (map (\<lambda>i. take (stop i - i) (drop i cols)) (py_range n step)) = cols"
      using chunk_slices [of cols] by (simp only: stop_def n_def)
    have "concat (map snd (map (\<lambda>i. (rows, map F (map snd (take (stop i - i) (drop i cols)))))
                     (py_range n step)))
          = map F (map snd (concat (map (\<lambda>i. take (stop i - i) (drop i cols)) (py_range n step))))"
      by (simp add: map_concat o_def)
    then have cv: "concat (map snd (map (\<lambda>i. (rows, map F (map snd (take (stop i - i) (drop i cols)))))
                     (py_range n step))) = map F (map snd cols)"
      by (simp only: cc)
    have "concatenate (map (\<lambda>i. (rows, map F (map snd (take (stop i - i) (drop i cols)))))
                         (py_range n step)) =
          Inr (rows, concat (map snd (map (\<lambda>i. (rows, map F (map snd (take (stop i - i) (drop i cols)))))
                     (py_range n step))))"
      by (simp add: concatenate_def pr list_all_iff)
    then have ct: "concatenate (map (\<lambda>i. (rows, map F (map snd (take (stop i - i) (drop i cols)))))
                         (py_range n step)) = Inr (rows, map F (map snd cols))"
      by (simp only: cv)
    show "read_timeslice_interp T frequency_secs cpu_pool L = DataFrame (rows, map F (map snd cols)) names G"
      by (simp only: ch [OF k1] mm bind_err_def sum.case ct)
    have "interpolate_one T L k = Inr (rows, map F (map snd cols))"
      using k1 l1 by (simp add: interpolate_one_columns rows_def F_def idx_def cols_def)
    then show "interpolate_all_columns T frequency_secs L = DataFrame (rows, map F (map snd cols)) names G"
      by (simp only: unch buf [OF k1] bind_err_def sum.case bcols)
  qed
  have eq: "read_timeslice_interp T frequency_secs cpu_pool L
          = interpolate_all_columns T frequency_secs L"
  proof (cases "1 \<le> k")
    case False
    then have "k < 1" by simp
    then show ?thesis by (simp only: ch_bad un_bad)
  next
    case True
    show ?thesis
    proof (cases "1 \<le> L")
      case False
      then have "L < 1" by simp
      from both_bad [OF True this] show ?thesis by simp
    next
      case l: True
      from good [OF True l] show ?thesis by simp
    qed
  qed
  have rg: "rows = length G" unfolding rows_def G_def by (simp only: resample_minute_grid)
  have df: "DataFrame (rows, map F (map snd cols)) names G =
            Inr \<lparr>df_index = G, df_cols = zip names (map F (map snd cols))\<rparr>"
    by (simp add: DataFrame_def rg names_def)
  have val: "read_timeslice_interp T frequency_secs cpu_pool L =
            Inr \<lparr>df_index = G, df_cols = zip names (map F (map snd cols))\<rparr>"
    if "1 \<le> L \<and> 1 \<le> k"
    using good that df by simp
  have body: "read_timeslice_interp T frequency_secs cpu_pool L
           = interpolate_all_columns T frequency_secs L
       \<and> (1 \<le> L \<and> 1 \<le> k \<longrightarrow>
            read_timeslice_interp T frequency_secs cpu_pool L =
              Inr \<lparr>df_index = G, df_cols = zip names (map F (map snd cols))\<rparr>)"
    using eq val by blast
  show ?thesis
    by (rule body [unfolded G_def names_def F_def cols_def idx_def k_def L_def T_def])
qed

theorem chunked_interpolation_unchunked_witness:
  "read_timeslice_interp
     \<lparr>df_index = [0, 15], df_cols = [(''01010000'', [Some 10, Some 13]), (''01020000'', [None, Some 4])]\<rparr>
     900 (Some 4) 59
   = interpolate_all_columns
     \<lparr>df_index = [0, 15], df_cols = [(''01010000'', [Some 10, Some 13]), (''01020000'', [None, Some 4])]\<rparr>
     900 59
   \<and> read_timeslice_interp
     \<lparr>df_index = [0, 15], df_cols = [(''01010000'', [Some 10, Some 13]), (''01020000'', [None, Some 4])]\<rparr>
     900 (Some 4) 59
   = Inr \<lparr>df_index = [0, 15],
          df_cols = [(''01010000'', [Some 10, Some 13]), (''01020000'', [Some 4, Some 4])]\<rparr>"
proof -
  let ?T = "\<lparr>df_index = [0, 15],
             df_cols = [(''01010000'', [Some (10 :: real), Some 13]), (''01020000'', [None, Some 4])]\<rparr>"
  have c: "df_cols ?T \<noteq> []" by simp
  have p: "Some (4 :: int) \<noteq> Some 0" by simp
  have v: "1 \<le> (59 :: int) \<and> 1 \<le> frequency_minutes 900" by (simp add: frequency_minutes_def)
  have g: "resample_grid (frequency_minutes 900) (df_index ?T) = [0, 15]" by code_simp
  have z: "zip (map fst (df_cols ?T))
             (map (interpolated_column (df_index ?T) 59 (frequency_minutes 900))
                (map snd (df_cols ?T))) =
           [(''01010000'', [Some 10, Some 13]), (''01020000'', [Some 4, Some 4])]"
    by code_simp
  note t = chunked_interpolation_unchunked [OF c p, of 900 59]
  have "read_timeslice_interp ?T 900 (Some 4) 59 =
        Inr \<lparr>df_index = resample_grid (frequency_minutes 900) (df_index ?T),
             df_cols = zip (map fst (df_cols ?T))
               (map (interpolated_column (df_index ?T) 59 (frequency_minutes 900))
                  (map snd (df_cols ?T)))\<rparr>"
    using t v by blast
  then have "read_timeslice_interp ?T 900 (Some 4) 59 =
        Inr \<lparr>df_index = [0, 15],
             df_cols = [(''01010000'', [Some 10, Some 13]), (''01020000'', [Some 4, Some 4])]\<rparr>"
    by (simp only: g z)
  moreover have "read_timeslice_interp ?T 900 (Some 4) 59 = interpolate_all_columns ?T 900 59"
    using t by (rule conjunct1)
  ultimately show ?thesis by (intro conjI)
qed

text \<open>With 201 stations the loop makes two chunks, of the columns 0 to 199 and of column 200.\<close>

lemma two_chunks: "py_range 201 step = [0, 200]"
  by code_simp

end
